theory Spec2Isabelle
  imports Main
begin

section \<open>Strings\<close>

text \<open>
  Go strings and byte slices are byte sequences: both are \<open>char list\<close> here, a
  \<open>char\<close> being one byte. A Go \<open>error\<close> is represented by its message.
\<close>

type_synonym bytes = string

text \<open>
  \<open>strings.Index(s, sep)\<close>: the position of the first occurrence of \<open>sep\<close> in \<open>s\<close>,
  \<open>None\<close> for Go's \<open>-1\<close>.
\<close>

fun Index :: "string \<Rightarrow> string \<Rightarrow> nat option" where
  "Index [] sep = (if sep = [] then Some 0 else None)"
| "Index (c # cs) sep =
     (if take (length sep) (c # cs) = sep then Some 0
      else map_option Suc (Index cs sep))"

lemma Index_bound: "Index s sep = Some m \<Longrightarrow> m + length sep \<le> length s"
proof (induction s arbitrary: m)
  case Nil
  then show ?case by (simp split: if_splits)
next
  case (Cons c cs)
  show ?case
  proof (cases "take (length sep) (c # cs) = sep")
    case True
    then have "length (take (length sep) (c # cs)) = length sep" by simp
    then have "length sep \<le> length (c # cs)" by (simp del: take_Suc_Cons)
    with True Cons.prems show ?thesis by simp
  next
    case False
    with Cons.prems obtain k where "Index cs sep = Some k" "m = Suc k" by auto
    with Cons.IH show ?thesis by auto
  qed
qed

text \<open>
  \<open>strings.Split(s, sep)\<close>: the pieces of \<open>s\<close> between the occurrences of \<open>sep\<close>, found
  from the left by \<open>Index\<close>, the rest of the string being the last piece. With an empty
  separator Go cuts after every UTF-8 sequence (here: every byte); the program only
  splits on the literals \<open>":"\<close>, \<open>"@sha256:"\<close> and \<open>"/"\<close>.
\<close>

function Split :: "string \<Rightarrow> string \<Rightarrow> string list" where
  "Split s sep =
     (if sep = [] then map (\<lambda>c. [c]) s
      else case Index s sep of
             None \<Rightarrow> [s]
           | Some m \<Rightarrow> take m s # Split (drop (m + length sep) s) sep)"
  by pat_completeness auto
termination
proof (relation "measure (\<lambda>(s, sep). length s)")
  show "wf (measure (\<lambda>(s, sep). length s))" by simp
next
  fix s sep :: string and m
  assume "sep \<noteq> []" "Index s sep = Some m"
  then show "((drop (m + length sep) s, sep), (s, sep)) \<in> measure (\<lambda>(s, sep). length s)"
    using Index_bound [of s sep m] by (cases sep) auto
qed

declare Split.simps [simp del]

text \<open>
  \<open>fmt.Sprintf("%03d", i)\<close> for a loop index \<open>i\<close>, which is never negative: the decimal
  digits of \<open>i\<close>, with zeros in front while there are fewer than three.
\<close>

fun decimal :: "nat \<Rightarrow> string" where
  "decimal n = (if n < 10 then [''0123456789'' ! n]
                else decimal (n div 10) @ [''0123456789'' ! (n mod 10)])"

declare decimal.simps [simp del]

definition Sprintf_03d :: "nat \<Rightarrow> string" where
  "Sprintf_03d i = replicate (3 - length (decimal i)) CHR ''0'' @ decimal i"

section \<open>The trust policy: \<open>enforceContentTrust\<close>\<close>

text \<open>
  \<open>TrustConfig\<close> is declared outside \<open>build.go\<close>; the function reads its two string
  slices, \<open>config.Image\<close> and \<open>config.Org\<close>.
\<close>

record TrustConfig =
  trust_Image :: "string list"
  trust_Org :: "string list"

text \<open>The three tests the first loop makes for one entry \<open>img\<close> of \<open>config.Image\<close>.\<close>

definition exactMatch :: "string \<Rightarrow> string \<Rightarrow> bool" where
  "exactMatch img fullImageName = (img = fullImageName)"

definition tagMatch :: "string \<Rightarrow> string \<Rightarrow> bool" where
  "tagMatch img fullImageName =
     (let imgAndTag = Split fullImageName '':''
      in length imgAndTag \<ge> 2 \<and> img = imgAndTag ! 0)"

definition digestMatch :: "string \<Rightarrow> string \<Rightarrow> bool" where
  "digestMatch img fullImageName =
     (let imgAndDigest = Split fullImageName ''@sha256:''
      in length imgAndDigest \<ge> 2 \<and> img = imgAndDigest ! 0)"

text \<open>
  The loop over \<open>config.Image\<close>: \<open>True\<close> when some iteration returns true, \<open>False\<close> when
  the loop runs to its end.
\<close>

fun imageLoop :: "string \<Rightarrow> string list \<Rightarrow> bool" where
  "imageLoop fullImageName [] = False"
| "imageLoop fullImageName (img # imgs) =
     (if exactMatch img fullImageName then True
      else if tagMatch img fullImageName then True
      else if digestMatch img fullImageName then True
      else imageLoop fullImageName imgs)"

text \<open>
  The loop over \<open>config.Org\<close>. The \<open>switch\<close> on the number of pieces has the cases 0
  (\<open>return false\<close>), 1, 2 and default.
\<close>

fun orgLoop :: "string \<Rightarrow> string list \<Rightarrow> bool" where
  "orgLoop fullImageName [] = False"
| "orgLoop fullImageName (org # orgs) =
     (let splitName = Split fullImageName ''/''
      in if length splitName = 0 then False
         else let imgOrg = (if length splitName = 1 then ''library''
                            else if length splitName = 2 then splitName ! 0
                            else splitName ! 1)
              in if imgOrg = org then True else orgLoop fullImageName orgs)"

definition enforceContentTrust :: "string \<Rightarrow> TrustConfig \<Rightarrow> bool" where
  "enforceContentTrust fullImageName config =
     (if imageLoop fullImageName (trust_Image config) then True
      else orgLoop fullImageName (trust_Org config))"


section \<open>The tar library, as the program uses it\<close>

text \<open>
  \<open>archive/tar\<close> is not part of the repository. The program reads four fields of a
  \<open>tar.Header\<close> (the others are zero in the headers it builds and are carried unchanged
  by \<open>initrdAppend\<close>). \<open>Mode\<close> and \<open>Size\<close> are \<open>int64\<close>; no arithmetic is done on them.
  \<open>tar.TypeDir\<close> is the byte \<open>'5'\<close>; a \<open>Typeflag\<close> left out of a composite literal is the
  zero byte.
\<close>

record header =
  Name :: string
  Mode :: int
  Size :: int
  Typeflag :: char

definition TypeDir :: char where
  "TypeDir = CHR ''5''"

type_synonym entry = "header \<times> bytes"

text \<open>
  What a \<open>tar.Reader\<close> yields, call after call: \<open>tr.Next()\<close> returns \<open>io.EOF\<close>, an error,
  or a header; after a header, copying from the reader gives the entry's content or a read
  error, and the reader goes on with the rest of the stream.
\<close>

datatype tar_stream =
    EOF
  | ReadError string
  | Entry header "string + bytes" tar_stream

text \<open>
  The library is a parameter of the model. \<open>NewReader\<close> is \<open>tar.NewReader\<close> over the bytes
  of a buffer. A \<open>tar.Writer\<close> over a \<open>bytes.Buffer\<close> is represented by the list of the
  entries written so far; \<open>WriteHeader\<close> and \<open>Write\<close> may return an error that depends on
  that list and on what is written, and \<open>Close\<close> returns an error or leaves in the buffer
  bytes that depend on the entries written.
\<close>

record tarlib =
  NewReader :: "bytes \<Rightarrow> tar_stream"
  WriteHeader :: "entry list \<Rightarrow> header \<Rightarrow> string option"
  Write :: "entry list \<Rightarrow> header \<Rightarrow> bytes \<Rightarrow> string option"
  Close :: "entry list \<Rightarrow> string + bytes"

section \<open>The kernel splitter: \<open>untarKernel\<close>\<close>

text \<open>
  \<open>untarKernel\<close> ends in one of three ways: \<open>log.Fatalln\<close> ends the process, an error is
  returned, or the two buffers are returned.
\<close>

datatype 'a result = Fatal string | Error string | Ok 'a

text \<open>The three headers written into the new archive; \<open>0700\<close> is 448.\<close>

definition bootHeader :: header where
  "bootHeader = \<lparr>Name = ''boot'', Mode = 448, Size = 0, Typeflag = TypeDir\<rparr>"

definition kernelHeader :: "header \<Rightarrow> header" where
  "kernelHeader hdr =
     \<lparr>Name = ''boot/kernel'', Mode = Mode hdr, Size = Size hdr, Typeflag = CHR 0x00\<rparr>"

definition cmdlineHeader :: "string \<Rightarrow> header" where
  "cmdlineHeader cmdline =
     \<lparr>Name = ''boot/cmdline'', Mode = 448, Size = int (length cmdline),
      Typeflag = CHR 0x00\<rparr>"

text \<open>
  The branch \<open>case kernelName, kernelAltName\<close> after the test of \<open>foundKernel\<close>: a new
  writer, the header \<open>boot\<close>, the header \<open>boot/kernel\<close> and the content of the entry being
  read, the header \<open>boot/cmdline\<close> and the command line, and \<open>Close\<close>. Every error is
  returned.
\<close>

definition kernelCase :: "tarlib \<Rightarrow> header \<Rightarrow> string + bytes \<Rightarrow> string \<Rightarrow> string + bytes" where
  "kernelCase lib hdr body cmdline =
     (case WriteHeader lib [] bootHeader of
        Some err \<Rightarrow> Inl err
      | None \<Rightarrow>
     (case WriteHeader lib [(bootHeader, [])] (kernelHeader hdr) of
        Some err \<Rightarrow> Inl err
      | None \<Rightarrow>
     (case body of
        Inl err \<Rightarrow> Inl err
      | Inr content \<Rightarrow>
     (case Write lib [(bootHeader, [])] (kernelHeader hdr) content of
        Some err \<Rightarrow> Inl err
      | None \<Rightarrow>
     (case WriteHeader lib [(bootHeader, []), (kernelHeader hdr, content)]
             (cmdlineHeader cmdline) of
        Some err \<Rightarrow> Inl err
      | None \<Rightarrow>
     (case Write lib [(bootHeader, []), (kernelHeader hdr, content)]
             (cmdlineHeader cmdline) cmdline of
        Some err \<Rightarrow> Inl err
      | None \<Rightarrow>
          Close lib [(bootHeader, []), (kernelHeader hdr, content),
                     (cmdlineHeader cmdline, cmdline)]))))))"

text \<open>
  The loop of \<open>untarKernel\<close>, with its three variables. At \<open>io.EOF\<close> the loop is left; in
  the \<open>default\<close> branch the entry's content is not read.
\<close>

fun untarLoop ::
  "tarlib \<Rightarrow> string \<Rightarrow> string \<Rightarrow> string \<Rightarrow> string \<Rightarrow> tar_stream \<Rightarrow>
   bytes option \<Rightarrow> bytes option \<Rightarrow> bool \<Rightarrow> (bytes option \<times> bytes option) result" where
  "untarLoop lib kernelName kernelAltName ktarName cmdline EOF kernel_buf ktar foundKernel =
     Ok (kernel_buf, ktar)"
| "untarLoop lib kernelName kernelAltName ktarName cmdline (ReadError err) kernel_buf ktar
     foundKernel = Fatal err"
| "untarLoop lib kernelName kernelAltName ktarName cmdline (Entry hdr body tr) kernel_buf ktar
     foundKernel =
     (if Name hdr = kernelName \<or> Name hdr = kernelAltName then
        if foundKernel then Error ''found more than one possible kernel image''
        else (case kernelCase lib hdr body cmdline of
                Inl err \<Rightarrow> Error err
              | Inr k \<Rightarrow>
                  untarLoop lib kernelName kernelAltName ktarName cmdline tr (Some k) ktar True)
      else if Name hdr = ktarName then
        (case body of
           Inl err \<Rightarrow> Error err
         | Inr content \<Rightarrow>
             untarLoop lib kernelName kernelAltName ktarName cmdline tr kernel_buf (Some content)
               foundKernel)
      else untarLoop lib kernelName kernelAltName ktarName cmdline tr kernel_buf ktar foundKernel)"

definition untarKernel ::
  "tarlib \<Rightarrow> bytes \<Rightarrow> string \<Rightarrow> string \<Rightarrow> string \<Rightarrow> string \<Rightarrow> (bytes \<times> bytes) result" where
  "untarKernel lib buf kernelName kernelAltName ktarName cmdline =
     (case untarLoop lib kernelName kernelAltName ktarName cmdline (NewReader lib buf)
             None None False of
        Fatal err \<Rightarrow> Fatal err
      | Error err \<Rightarrow> Error err
      | Ok (kernel_buf, ktar) \<Rightarrow>
          (case kernel_buf of
             None \<Rightarrow> Error ''did not find kernel in kernel image''
           | Some k \<Rightarrow>
               (case ktar of
                  None \<Rightarrow> Error ''did not find kernel.tar in kernel image''
                | Some t \<Rightarrow> Ok (k, t))))"

section \<open>The build: \<open>buildInternal\<close>\<close>

text \<open>
  The configuration types are declared outside \<open>build.go\<close>; these are the fields the
  build reads. The other fields of \<open>Moby\<close> and of its container entries are read only by
  the collaborators \<open>filesystem\<close> and \<open>ConfigToOCI\<close>.
\<close>

record KernelConfig =
  kernel_Image :: string
  kernel_Cmdline :: string

record MobyImage =
  image_Name :: string
  image_Image :: string

record Moby =
  Kernel :: KernelConfig
  Init :: "string list"
  Onboot :: "MobyImage list"
  Services :: "MobyImage list"
  Trust :: TrustConfig

text \<open>
  The collaborators \<open>dockerPull\<close>, \<open>ImageExtract\<close>, \<open>ConfigToOCI\<close>, \<open>ImageBundle\<close> and
  \<open>filesystem\<close> are functions of the repository that are not in \<open>build.go\<close>; they talk to
  the outside world. Each is a parameter: its answer may depend on its arguments and on the
  number of collaborator calls made before it in the run, which stands for the state of
  the world at that moment. \<open>'c\<close> is the type of an OCI configuration.
\<close>

datatype 'c call =
    PullCall string bool
  | ExtractCall string string bool bool
  | OCICall MobyImage
  | BundleCall string string 'c bool bool
  | FilesCall Moby

datatype 'c response =
    PullResult "string option"
  | ExtractResult "string + bytes"
  | OCIResult "string + 'c"
  | BundleResult "string + bytes"
  | FilesResult "string + bytes"

record 'c collaborators =
  dockerPull :: "nat \<Rightarrow> string \<Rightarrow> bool \<Rightarrow> string option"
  ImageExtract :: "nat \<Rightarrow> string \<Rightarrow> string \<Rightarrow> bool \<Rightarrow> bool \<Rightarrow> string + bytes"
  ConfigToOCI :: "nat \<Rightarrow> MobyImage \<Rightarrow> string + 'c"
  ImageBundle :: "nat \<Rightarrow> string \<Rightarrow> string \<Rightarrow> 'c \<Rightarrow> bool \<Rightarrow> bool \<Rightarrow> string + bytes"
  filesystem :: "nat \<Rightarrow> Moby \<Rightarrow> string + bytes"

fun respond :: "'c collaborators \<Rightarrow> nat \<Rightarrow> 'c call \<Rightarrow> 'c response" where
  "respond env n (PullCall img trust) = PullResult (dockerPull env n img trust)"
| "respond env n (ExtractCall img prefix trust pull) =
     ExtractResult (ImageExtract env n img prefix trust pull)"
| "respond env n (OCICall img) = OCIResult (ConfigToOCI env n img)"
| "respond env n (BundleCall path img config trust pull) =
     BundleResult (ImageBundle env n path img config trust pull)"
| "respond env n (FilesCall m) = FilesResult (filesystem env n m)"

text \<open>
  The state of a build: the entries written so far to the output writer \<open>iw\<close>, whether
  \<open>iw.Close()\<close> has succeeded, and the calls made so far with their answers.
\<close>

record 'c build =
  iw :: "entry list"
  closed :: bool
  trace :: "('c call \<times> 'c response) list"

definition start :: "'c build" where
  "start = \<lparr>iw = [], closed = False, trace = []\<rparr>"

definition record_call :: "'c collaborators \<Rightarrow> 'c call \<Rightarrow> 'c build \<Rightarrow> 'c build" where
  "record_call env c s = s\<lparr>trace := trace s @ [(c, respond env (length (trace s)) c)]\<rparr>"

text \<open>
  \<open>log.Fatal\<close>, \<open>log.Fatalf\<close> and \<open>log.Fatalln\<close> end the process: the result \<open>Inl\<close> carries
  the message and the state in which the process ended.
\<close>

type_synonym 'c fatal = "string \<times> 'c build"

fun initrdAppend :: "tarlib \<Rightarrow> 'c build \<Rightarrow> tar_stream \<Rightarrow> 'c fatal + 'c build" where
  "initrdAppend lib s EOF = Inr s"
| "initrdAppend lib s (ReadError err) = Inl (err, s)"
| "initrdAppend lib s (Entry hdr body tr) =
     (case WriteHeader lib (iw s) hdr of
        Some err \<Rightarrow> Inl (err, s)
      | None \<Rightarrow>
          (case body of
             Inl err \<Rightarrow> Inl (err, s)
           | Inr content \<Rightarrow>
               (case Write lib (iw s) hdr content of
                  Some err \<Rightarrow> Inl (err, s)
                | None \<Rightarrow> initrdAppend lib (s\<lparr>iw := iw s @ [(hdr, content)]\<rparr>) tr)))"

text \<open>Lines 224 to 230: the pull of the kernel image.\<close>

definition pullKernel ::
  "'c collaborators \<Rightarrow> Moby \<Rightarrow> bool \<Rightarrow> 'c build \<Rightarrow> 'c fatal + 'c build" where
  "pullKernel env m pull s =
     (if pull \<or> enforceContentTrust (kernel_Image (Kernel m)) (Trust m) then
        (let c = PullCall (kernel_Image (Kernel m))
                   (enforceContentTrust (kernel_Image (Kernel m)) (Trust m))
         in case dockerPull env (length (trace s)) (kernel_Image (Kernel m))
                   (enforceContentTrust (kernel_Image (Kernel m)) (Trust m)) of
              Some err \<Rightarrow>
                Inl (''Could not pull image '' @ kernel_Image (Kernel m) @ '': '' @ err,
                     record_call env c s)
            | None \<Rightarrow> Inr (record_call env c s))
      else Inr s)"

text \<open>Lines 231 to 251: the kernel image is extracted, split and appended.\<close>

definition extractKernel ::
  "tarlib \<Rightarrow> 'c collaborators \<Rightarrow> Moby \<Rightarrow> bool \<Rightarrow> 'c build \<Rightarrow> 'c fatal + 'c build" where
  "extractKernel lib env m pull s =
     (if kernel_Image (Kernel m) \<noteq> '''' then
        (let c = ExtractCall (kernel_Image (Kernel m)) ''''
                   (enforceContentTrust (kernel_Image (Kernel m)) (Trust m)) pull;
             s1 = record_call env c s
         in case ImageExtract env (length (trace s)) (kernel_Image (Kernel m)) ''''
                   (enforceContentTrust (kernel_Image (Kernel m)) (Trust m)) pull of
              Inl err \<Rightarrow> Inl (''Failed to extract kernel image and tarball: '' @ err, s1)
            | Inr out \<Rightarrow>
                (case untarKernel lib out ''kernel'' ''bzImage'' ''kernel.tar''
                        (kernel_Cmdline (Kernel m)) of
                   Fatal err \<Rightarrow> Inl (err, s1)
                 | Error err \<Rightarrow>
                     Inl (''Could not extract kernel image and filesystem from tarball. ''
                          @ err, s1)
                 | Ok (kernel_buf, ktar) \<Rightarrow>
                     (case initrdAppend lib s1 (NewReader lib kernel_buf) of
                        Inl f \<Rightarrow> Inl f
                      | Inr s2 \<Rightarrow> initrdAppend lib s2 (NewReader lib ktar))))
      else Inr s)"

text \<open>The body of the loop over \<open>m.Init\<close>.\<close>

definition initBody ::
  "tarlib \<Rightarrow> 'c collaborators \<Rightarrow> Moby \<Rightarrow> bool \<Rightarrow> string \<Rightarrow> 'c build \<Rightarrow> 'c fatal + 'c build" where
  "initBody lib env m pull ii s =
     (let c = ExtractCall ii '''' (enforceContentTrust ii (Trust m)) pull;
          s1 = record_call env c s
      in case ImageExtract env (length (trace s)) ii '''' (enforceContentTrust ii (Trust m))
                pull of
           Inl err \<Rightarrow> Inl (''Failed to build init tarball from '' @ ii @ '': '' @ err, s1)
         | Inr init \<Rightarrow> initrdAppend lib s1 (NewReader lib init))"

text \<open>
  The bodies of the loops over \<open>m.Onboot\<close> and \<open>m.Services\<close> differ in the path only;
  \<open>ociBundle\<close> is what they share.
\<close>

definition ociBundle ::
  "tarlib \<Rightarrow> 'c collaborators \<Rightarrow> Moby \<Rightarrow> bool \<Rightarrow> string \<Rightarrow> MobyImage \<Rightarrow> 'c build \<Rightarrow>
   'c fatal + 'c build" where
  "ociBundle lib env m pull path img s =
     (let s1 = record_call env (OCICall img) s
      in case ConfigToOCI env (length (trace s)) img of
           Inl err \<Rightarrow>
             Inl (''Failed to create config.json for '' @ image_Image img @ '': '' @ err, s1)
         | Inr config \<Rightarrow>
             (let c = BundleCall path (image_Image img) config
                        (enforceContentTrust (image_Image img) (Trust m)) pull;
                  s2 = record_call env c s1
              in case ImageBundle env (length (trace s1)) path (image_Image img) config
                        (enforceContentTrust (image_Image img) (Trust m)) pull of
                   Inl err \<Rightarrow>
                     Inl (''Failed to extract root filesystem for '' @ image_Image img
                          @ '': '' @ err, s2)
                 | Inr out \<Rightarrow> initrdAppend lib s2 (NewReader lib out)))"

definition onbootBody ::
  "tarlib \<Rightarrow> 'c collaborators \<Rightarrow> Moby \<Rightarrow> bool \<Rightarrow> nat \<times> MobyImage \<Rightarrow> 'c build \<Rightarrow>
   'c fatal + 'c build" where
  "onbootBody lib env m pull x s =
     (let i = fst x; img = snd x;
          so = Sprintf_03d i;
          path = ''containers/onboot/'' @ so @ ''-'' @ image_Name img
      in ociBundle lib env m pull path img s)"

definition servicesBody ::
  "tarlib \<Rightarrow> 'c collaborators \<Rightarrow> Moby \<Rightarrow> bool \<Rightarrow> MobyImage \<Rightarrow> 'c build \<Rightarrow>
   'c fatal + 'c build" where
  "servicesBody lib env m pull img s =
     (let path = ''containers/services/'' @ image_Name img
      in ociBundle lib env m pull path img s)"

text \<open>Lines 304 to 309, and lines 310 to 315.\<close>

definition addFiles ::
  "tarlib \<Rightarrow> 'c collaborators \<Rightarrow> Moby \<Rightarrow> 'c build \<Rightarrow> 'c fatal + 'c build" where
  "addFiles lib env m s =
     (let s1 = record_call env (FilesCall m) s
      in case filesystem env (length (trace s)) m of
           Inl err \<Rightarrow> Inl (''failed to add filesystem parts: '' @ err, s1)
         | Inr buffer \<Rightarrow> initrdAppend lib s1 (NewReader lib buffer))"

definition closeArchive :: "tarlib \<Rightarrow> 'c build \<Rightarrow> 'c fatal + bytes \<times> 'c build" where
  "closeArchive lib s =
     (case Close lib (iw s) of
        Inl err \<Rightarrow> Inl (''initrd close error: '' @ err, s)
      | Inr w \<Rightarrow> Inr (w, s\<lparr>closed := True\<rparr>))"

text \<open>A \<open>for ... range\<close> loop whose body may end the process.\<close>

fun forEach :: "('a \<Rightarrow> 's \<Rightarrow> 'e + 's) \<Rightarrow> 'a list \<Rightarrow> 's \<Rightarrow> 'e + 's" where
  "forEach body [] s = Inr s"
| "forEach body (x # xs) s =
     (case body x s of Inl f \<Rightarrow> Inl f | Inr s' \<Rightarrow> forEach body xs s')"

definition buildInternal ::
  "tarlib \<Rightarrow> 'c collaborators \<Rightarrow> Moby \<Rightarrow> bool \<Rightarrow> 'c fatal + bytes \<times> 'c build" where
  "buildInternal lib env m pull =
     (case pullKernel env m pull start of
        Inl f \<Rightarrow> Inl f
      | Inr s1 \<Rightarrow>
     (case extractKernel lib env m pull s1 of
        Inl f \<Rightarrow> Inl f
      | Inr s2 \<Rightarrow>
     (case forEach (initBody lib env m pull) (Init m) s2 of
        Inl f \<Rightarrow> Inl f
      | Inr s3 \<Rightarrow>
     (case forEach (onbootBody lib env m pull) (enumerate 0 (Onboot m)) s3 of
        Inl f \<Rightarrow> Inl f
      | Inr s4 \<Rightarrow>
     (case forEach (servicesBody lib env m pull) (Services m) s4 of
        Inl f \<Rightarrow> Inl f
      | Inr s5 \<Rightarrow>
     (case addFiles lib env m s5 of
        Inl f \<Rightarrow> Inl f
      | Inr s6 \<Rightarrow> closeArchive lib s6))))))"

section \<open>Notions used in the statements\<close>

text \<open>A stream that yields the given entries, whole, and then goes on as \<open>tr\<close>.\<close>

fun stream :: "entry list \<Rightarrow> tar_stream \<Rightarrow> tar_stream" where
  "stream [] tr = tr"
| "stream ((hdr, content) # es) tr = Entry hdr (Inr content) (stream es tr)"

text \<open>The headers a stream yields, with what reading each content gives.\<close>

fun nodes :: "tar_stream \<Rightarrow> (header \<times> (string + bytes)) list" where
  "nodes EOF = []"
| "nodes (ReadError err) = []"
| "nodes (Entry hdr body tr) = (hdr, body) # nodes tr"

text \<open>The entries a stream yields up to its end or its first error.\<close>

fun entries :: "tar_stream \<Rightarrow> entry list" where
  "entries EOF = []"
| "entries (ReadError err) = []"
| "entries (Entry hdr body tr) =
     (case body of Inl err \<Rightarrow> [] | Inr content \<Rightarrow> (hdr, content) # entries tr)"

definition kernelNamed :: "string \<Rightarrow> string \<Rightarrow> header \<times> 'a \<Rightarrow> bool" where
  "kernelNamed kernelName kernelAltName e =
     (Name (fst e) = kernelName \<or> Name (fst e) = kernelAltName)"

definition ktarNamed :: "string \<Rightarrow> string \<Rightarrow> string \<Rightarrow> header \<times> 'a \<Rightarrow> bool" where
  "ktarNamed kernelName kernelAltName ktarName e =
     (\<not> kernelNamed kernelName kernelAltName e \<and> Name (fst e) = ktarName)"

definition lastKtar ::
  "string \<Rightarrow> string \<Rightarrow> string \<Rightarrow> entry list \<Rightarrow> bytes option \<Rightarrow> bytes option" where
  "lastKtar kn kan ktn es T =
     (if filter (ktarNamed kn kan ktn) es = [] then T
      else Some (snd (last (filter (ktarNamed kn kan ktn) es))))"

definition state_of :: "'c fatal + 'c build \<Rightarrow> 'c build" where
  "state_of r = (case r of Inl f \<Rightarrow> snd f | Inr s \<Rightarrow> s)"

definition final_state :: "'c fatal + bytes \<times> 'c build \<Rightarrow> 'c build" where
  "final_state r = (case r of Inl f \<Rightarrow> snd f | Inr (w, s) \<Rightarrow> s)"

text \<open>
  A world agrees with a recorded run when it gives, to each call of the run at its
  position, the recorded answer.
\<close>

definition agrees :: "'c collaborators \<Rightarrow> ('c call \<times> 'c response) list \<Rightarrow> bool" where
  "agrees env tr =
     list_all (\<lambda>x. respond env (fst x) (fst (snd x)) = snd (snd x)) (enumerate 0 tr)"

text \<open>The byte streams the collaborators returned in a run, each with the call it answers.\<close>

datatype origin = Extracted string | Bundled string string | Overlay

fun fragment :: "'c call \<times> 'c response \<Rightarrow> (origin \<times> bytes) list" where
  "fragment (ExtractCall img prefix trust pull, ExtractResult (Inr b)) = [(Extracted img, b)]"
| "fragment (BundleCall path img config trust pull, BundleResult (Inr b)) =
     [(Bundled path img, b)]"
| "fragment (FilesCall m, FilesResult (Inr b)) = [(Overlay, b)]"
| "fragment (c, r) = []"

definition fragments :: "('c call \<times> 'c response) list \<Rightarrow> (origin \<times> bytes) list" where
  "fragments tr = concat (map fragment tr)"

text \<open>The paths and images of the calls of \<open>ImageBundle\<close> in a run.\<close>

fun bundlePath :: "'c call \<times> 'c response \<Rightarrow> (string \<times> string) list" where
  "bundlePath (BundleCall path img config trust pull, r) = [(path, img)]"
| "bundlePath (c, r) = []"

definition bundlePaths :: "('c call \<times> 'c response) list \<Rightarrow> (string \<times> string) list" where
  "bundlePaths tr = concat (map bundlePath tr)"

fun failed :: "'c response \<Rightarrow> bool" where
  "failed (PullResult r) = (r \<noteq> None)"
| "failed (ExtractResult r) = isl r"
| "failed (OCIResult r) = isl r"
| "failed (BundleResult r) = isl r"
| "failed (FilesResult r) = isl r"

definition allOk :: "('c call \<times> 'c response) list \<Rightarrow> bool" where
  "allOk tr = list_all (\<lambda>x. \<not> failed (snd x)) tr"

definition onbootPath :: "nat \<times> MobyImage \<Rightarrow> string" where
  "onbootPath x = ''containers/onboot/'' @ Sprintf_03d (fst x) @ ''-'' @ image_Name (snd x)"

definition servicesPath :: "MobyImage \<Rightarrow> string" where
  "servicesPath img = ''containers/services/'' @ image_Name img"

definition expectedBundles :: "Moby \<Rightarrow> (string \<times> string) list" where
  "expectedBundles m =
     map (\<lambda>x. (''containers/onboot/'' @ Sprintf_03d (fst x) @ ''-'' @ image_Name (snd x),
               image_Image (snd x))) (enumerate 0 (Onboot m))
     @ map (\<lambda>img. (''containers/services/'' @ image_Name img, image_Image img)) (Services m)"

text \<open>
  The build as a list of steps: the two kernel steps, one step for each entry of
  \<open>m.Init\<close>, \<open>m.Onboot\<close> and \<open>m.Services\<close>, and the overlay.
\<close>

datatype step =
    PullKernel
  | ExtractKernel
  | InitStep string
  | OnbootStep "nat \<times> MobyImage"
  | ServicesStep MobyImage
  | AddFiles

fun runStep ::
  "tarlib \<Rightarrow> 'c collaborators \<Rightarrow> Moby \<Rightarrow> bool \<Rightarrow> step \<Rightarrow> 'c build \<Rightarrow> 'c fatal + 'c build" where
  "runStep lib env m pull PullKernel s = pullKernel env m pull s"
| "runStep lib env m pull ExtractKernel s = extractKernel lib env m pull s"
| "runStep lib env m pull (InitStep ii) s = initBody lib env m pull ii s"
| "runStep lib env m pull (OnbootStep x) s = onbootBody lib env m pull x s"
| "runStep lib env m pull (ServicesStep img) s = servicesBody lib env m pull img s"
| "runStep lib env m pull AddFiles s = addFiles lib env m s"

definition steps :: "Moby \<Rightarrow> step list" where
  "steps m =
     PullKernel # ExtractKernel # map InitStep (Init m)
     @ map OnbootStep (enumerate 0 (Onboot m)) @ map ServicesStep (Services m) @ [AddFiles]"

fun bundleOf :: "step \<Rightarrow> (string \<times> string) list" where
  "bundleOf (OnbootStep x) = [(onbootPath x, image_Image (snd x))]"
| "bundleOf (ServicesStep img) = [(servicesPath img, image_Image img)]"
| "bundleOf st = []"

text \<open>
  A step keeps \<open>closed\<close>, and, from a state in which every answer was a success, leaves a
  state in which every answer was, but for the last one when the process ends.
\<close>

definition sound :: "'c build \<Rightarrow> 'c fatal + 'c build \<Rightarrow> bool" where
  "sound s r =
     (closed (state_of r) = closed s \<and>
      (allOk (trace s) \<longrightarrow>
         (case r of Inl f \<Rightarrow> allOk (butlast (trace (snd f))) | Inr s' \<Rightarrow> allOk (trace s'))))"

section \<open>A small archive library and a small world, to run the model\<close>

text \<open>
  An instance of the library: an archive is the concatenation of its entries, an entry is
  its five fields, and a field is its length in decimal, a colon, and its bytes. Its
  writer accepts everything.
\<close>

definition parseNat :: "string \<Rightarrow> nat" where
  "parseNat ds = foldl (\<lambda>n c. 10 * n + (of_char c - 48)) 0 ds"

definition isDigit :: "char \<Rightarrow> bool" where
  "isDigit c = (c \<in> set ''0123456789'')"

definition putField :: "bytes \<Rightarrow> bytes" where
  "putField f = decimal (length f) @ '':'' @ f"

definition getField :: "bytes \<Rightarrow> (bytes \<times> bytes) option" where
  "getField bs =
     (let ds = takeWhile isDigit bs
      in if ds = [] then None
         else case dropWhile isDigit bs of
                [] \<Rightarrow> None
              | c # body \<Rightarrow>
                  if c \<noteq> CHR '':'' \<or> length body < parseNat ds then None
                  else Some (take (parseNat ds) body, drop (parseNat ds) body))"

definition putEntry :: "entry \<Rightarrow> bytes" where
  "putEntry e =
     putField (Name (fst e)) @ putField (decimal (nat (Mode (fst e))))
     @ putField (decimal (nat (Size (fst e)))) @ putField [Typeflag (fst e)]
     @ putField (snd e)"

definition getEntry :: "bytes \<Rightarrow> (entry \<times> bytes) option" where
  "getEntry bs =
     (case getField bs of None \<Rightarrow> None | Some (name, r1) \<Rightarrow>
     (case getField r1 of None \<Rightarrow> None | Some (mode, r2) \<Rightarrow>
     (case getField r2 of None \<Rightarrow> None | Some (sz, r3) \<Rightarrow>
     (case getField r3 of None \<Rightarrow> None | Some (flag, r4) \<Rightarrow>
     (case getField r4 of None \<Rightarrow> None | Some (content, r5) \<Rightarrow>
     (case flag of
        [f] \<Rightarrow> Some ((\<lparr>Name = name, Mode = int (parseNat mode), Size = int (parseNat sz),
                         Typeflag = f\<rparr>, content), r5)
      | _ \<Rightarrow> None))))))"

primrec getArchive :: "nat \<Rightarrow> bytes \<Rightarrow> tar_stream" where
  "getArchive 0 bs = (if bs = [] then EOF else ReadError ''unexpected EOF'')"
| "getArchive (Suc n) bs =
     (if bs = [] then EOF
      else case getEntry bs of
             None \<Rightarrow> ReadError ''unexpected EOF''
           | Some (e, rest) \<Rightarrow> Entry (fst e) (Inr (snd e)) (getArchive n rest))"

definition plainTar :: tarlib where
  "plainTar =
     \<lparr>NewReader = (\<lambda>bs. getArchive (length bs) bs),
      WriteHeader = (\<lambda>es hdr. None),
      Write = (\<lambda>es hdr content. None),
      Close = (\<lambda>es. Inr (concat (map putEntry es)))\<rparr>"

definition regular :: "string \<Rightarrow> bytes \<Rightarrow> entry" where
  "regular name content =
     (\<lparr>Name = name, Mode = 420, Size = int (length content), Typeflag = CHR ''0''\<rparr>, content)"

definition archive :: "entry list \<Rightarrow> bytes" where
  "archive es = concat (map putEntry es)"

definition kernelExport :: bytes where
  "kernelExport =
     concat (map putEntry
       [(\<lparr>Name = ''kernel'', Mode = 420, Size = 1, Typeflag = CHR ''0''\<rparr>, ''X''),
        (\<lparr>Name = ''kernel.tar'', Mode = 420, Size = 1, Typeflag = CHR ''0''\<rparr>, ''T'')])"

definition bootFragment :: bytes where
  "bootFragment =
     concat (map putEntry
       [(\<lparr>Name = ''boot'', Mode = 448, Size = 0, Typeflag = CHR ''5''\<rparr>, []),
        (\<lparr>Name = ''boot/kernel'', Mode = 420, Size = 1, Typeflag = CHR 0x00\<rparr>, ''X''),
        (\<lparr>Name = ''boot/cmdline'', Mode = 448, Size = 13, Typeflag = CHR 0x00\<rparr>,
         ''console=ttyS0'')])"

definition demoKernel :: bytes where
  "demoKernel = archive [regular ''kernel'' ''X'',
                         regular ''kernel.tar'' (archive [regular ''lib/modules'' ''m''])]"

definition demoWorld :: "string collaborators" where
  "demoWorld =
     \<lparr>dockerPull = (\<lambda>n ref trust. if ref = '''' then Some ''invalid reference format'' else None),
      ImageExtract = (\<lambda>n ref prefix trust pull.
         if ref = ''linuxkit/kernel:4.9.x'' then Inr demoKernel
         else Inr (archive [regular (''bin/'' @ ref) ''#''])),
      ConfigToOCI = (\<lambda>n img. Inr (''{}'')),
      ImageBundle = (\<lambda>n path ref config trust pull.
         if ref = ''broken'' then Inl ''no such image''
         else Inr (archive [regular (path @ ''/config.json'') config])),
      filesystem = (\<lambda>n m. Inr (archive [regular ''etc/hostname'' ''moby'']))\<rparr>"

definition demoMoby :: Moby where
  "demoMoby =
     \<lparr>Kernel = \<lparr>kernel_Image = ''linuxkit/kernel:4.9.x'', kernel_Cmdline = ''console=ttyS0''\<rparr>,
      Init = [''init'', ''runc''],
      Onboot = [\<lparr>image_Name = ''sysctl'', image_Image = ''linuxkit/sysctl''\<rparr>,
                \<lparr>image_Name = ''dhcp'', image_Image = ''linuxkit/dhcpcd''\<rparr>,
                \<lparr>image_Name = ''fmt'', image_Image = ''linuxkit/format''\<rparr>],
      Services = [\<lparr>image_Name = ''sshd'', image_Image = ''linuxkit/sshd''\<rparr>],
      Trust = \<lparr>trust_Image = [], trust_Org = [''linuxkit'']\<rparr>\<rparr>"

definition demoResult :: "string fatal + bytes \<times> string build" where
  "demoResult = buildInternal plainTar demoWorld demoMoby False"

definition laterWorld :: "string collaborators" where
  "laterWorld =
     demoWorld\<lparr>dockerPull := (\<lambda>n ref trust. if n = 0 then None else Some ''registry is gone''),
               ImageExtract := (\<lambda>n ref prefix trust pull.
                  if n < 4 then ImageExtract demoWorld n ref prefix trust pull
                  else Inl ''registry is gone'')\<rparr>"

definition brokenMoby :: Moby where
  "brokenMoby =
     demoMoby\<lparr>Onboot := [\<lparr>image_Name = ''sysctl'', image_Image = ''linuxkit/sysctl''\<rparr>,
                          \<lparr>image_Name = ''dhcp'', image_Image = ''broken''\<rparr>,
                          \<lparr>image_Name = ''fmt'', image_Image = ''linuxkit/format''\<rparr>]\<rparr>"

definition brokenBefore :: "step list" where
  "brokenBefore =
     [PullKernel, ExtractKernel, InitStep ''init'', InitStep ''runc'',
      OnbootStep (0, \<lparr>image_Name = ''sysctl'', image_Image = ''linuxkit/sysctl''\<rparr>)]"

definition brokenState :: "string build" where
  "brokenState =
     state_of (forEach (runStep plainTar demoWorld brokenMoby False) brokenBefore start)"

definition brokenFailure :: "string fatal" where
  "brokenFailure =
     (''Failed to extract root filesystem for broken: no such image'',
      state_of (runStep plainTar demoWorld brokenMoby False
        (OnbootStep (1, \<lparr>image_Name = ''dhcp'', image_Image = ''broken''\<rparr>)) brokenState))"

definition noKernelMoby :: Moby where
  "noKernelMoby =
     \<lparr>Kernel = \<lparr>kernel_Image = '''', kernel_Cmdline = ''''\<rparr>,
      Init = [''init''], Onboot = [], Services = [],
      Trust = \<lparr>trust_Image = [], trust_Org = []\<rparr>\<rparr>"

definition libraryMoby :: Moby where
  "libraryMoby = noKernelMoby\<lparr>Trust := \<lparr>trust_Image = [], trust_Org = [''library'']\<rparr>\<rparr>"

definition quietWorld :: "string collaborators" where
  "quietWorld =
     \<lparr>dockerPull = (\<lambda>n ref trust. None),
      ImageExtract = (\<lambda>n ref prefix trust pull. Inr []),
      ConfigToOCI = (\<lambda>n img. Inr ''{}''),
      ImageBundle = (\<lambda>n path ref config trust pull. Inr []),
      filesystem = (\<lambda>n m. Inr [])\<rparr>"

definition longMoby :: Moby where
  "longMoby =
     \<lparr>Kernel = \<lparr>kernel_Image = '''', kernel_Cmdline = ''''\<rparr>,
      Init = [],
      Onboot = replicate 1001 \<lparr>image_Name = ''getty'', image_Image = ''linuxkit/getty''\<rparr>,
      Services = [],
      Trust = \<lparr>trust_Image = [], trust_Org = []\<rparr>\<rparr>"

section \<open>Splitting on one character\<close>


lemma Split_nonempty: "sep \<noteq> [] \<Longrightarrow> Split s sep \<noteq> []"
  by (subst Split.simps) (simp split: option.splits)





lemma orgLoop_segments:
  "orgLoop fullImageName orgs =
     (case Split fullImageName ''/'' of
        [] \<Rightarrow> False
      | [a] \<Rightarrow> ''library'' \<in> set orgs
      | [a, b] \<Rightarrow> a \<in> set orgs
      | a # b # c # rest \<Rightarrow> b \<in> set orgs)"
  by (induction orgs) (auto simp: Let_def split: list.splits)

section \<open>Claims about the trust policy\<close>



text \<open>
  C3: the organisation compared with the entries of \<open>config.Org\<close> is decided by the number
  of pieces of the reference between \<open>/\<close>: none, no organisation and the answer false;
  one, \<open>library\<close>; two, the first piece; three or more, the second piece. The second loop
  answers true exactly when that organisation is an entry of \<open>config.Org\<close>.
\<close>

theorem C3_org_derivation:
  "orgLoop fullImageName (trust_Org config) =
     (case Split fullImageName ''/'' of
        [] \<Rightarrow> False
      | [name] \<Rightarrow> ''library'' \<in> set (trust_Org config)
      | [org, repo] \<Rightarrow> org \<in> set (trust_Org config)
      | registry # org # repo # rest \<Rightarrow> org \<in> set (trust_Org config))"
  by (rule orgLoop_segments)

text \<open>C3 on a bare name, a two-piece reference and a reference with a registry.\<close>

theorem C3_witness:
  "orgLoop ''nginx'' (trust_Org \<lparr>trust_Image = [], trust_Org = [''library'']\<rparr>) \<and>
   orgLoop ''linuxkit/kernel:4.19.x''
     (trust_Org \<lparr>trust_Image = [], trust_Org = [''linuxkit'']\<rparr>) \<and>
   orgLoop ''docker.io/library/alpine''
     (trust_Org \<lparr>trust_Image = [], trust_Org = [''library'']\<rparr>) \<and>
   \<not> orgLoop ''docker.io/library/alpine''
     (trust_Org \<lparr>trust_Image = [], trust_Org = [''docker.io'', ''alpine'']\<rparr>)"
proof -
  have s1: "Split ''nginx'' ''/'' = [''nginx'']" by code_simp
  have s2: "Split ''linuxkit/kernel:4.19.x'' ''/'' = [''linuxkit'', ''kernel:4.19.x'']"
    by code_simp
  have s3: "Split ''docker.io/library/alpine'' ''/'' = [''docker.io'', ''library'', ''alpine'']"
    by code_simp
  show ?thesis
    using C3_org_derivation [of "''nginx''" "\<lparr>trust_Image = [], trust_Org = [''library'']\<rparr>"]
      C3_org_derivation [of "''linuxkit/kernel:4.19.x''"
        "\<lparr>trust_Image = [], trust_Org = [''linuxkit'']\<rparr>"]
      C3_org_derivation [of "''docker.io/library/alpine''"
        "\<lparr>trust_Image = [], trust_Org = [''library'']\<rparr>"]
      C3_org_derivation [of "''docker.io/library/alpine''"
        "\<lparr>trust_Image = [], trust_Org = [''docker.io'', ''alpine'']\<rparr>"]
    by (simp add: s1 s2 s3)
qed

text \<open>
  C10: splitting on \<open>/\<close> always gives at least one piece, the empty reference gives the one
  piece \<open>""\<close>, and so, when \<open>library\<close> is an entry of \<open>config.Org\<close>, the evaluation of the
  empty reference answers true.
\<close>

theorem C10_empty_reference:
  "length (Split s ''/'') \<ge> 1 \<and> Split '''' ''/'' = [''''] \<and>
   (''library'' \<in> set (trust_Org config) \<longrightarrow> enforceContentTrust '''' config)"
proof -
  have "Split s ''/'' \<noteq> []" by (rule Split_nonempty) simp
  then have a: "length (Split s ''/'') \<ge> 1" by (cases "Split s ''/''") simp_all
  have b: "Split '''' ''/'' = ['''']" by (subst Split.simps) simp
  have c: "''library'' \<in> set (trust_Org config) \<longrightarrow> enforceContentTrust '''' config"
    by (simp add: enforceContentTrust_def orgLoop_segments b)
  from a b c show ?thesis by blast
qed

text \<open>C10 on the policy whose only organisation is \<open>library\<close>.\<close>

theorem C10_witness:
  "''library'' \<in> set (trust_Org \<lparr>trust_Image = [], trust_Org = [''library'']\<rparr>) \<and>
   enforceContentTrust '''' \<lparr>trust_Image = [], trust_Org = [''library'']\<rparr>"
  using C10_empty_reference [of "''''" "\<lparr>trust_Image = [], trust_Org = [''library'']\<rparr>"]
  by simp

section \<open>The kernel splitter on a stream\<close>

lemma lastKtar_append:
  "lastKtar kn kan ktn (es @ fs) T = lastKtar kn kan ktn fs (lastKtar kn kan ktn es T)"
  by (simp add: lastKtar_def)

lemma lastKtar_skip:
  "\<not> ktarNamed kn kan ktn e \<Longrightarrow> lastKtar kn kan ktn (e # es) T = lastKtar kn kan ktn es T"
  by (simp add: lastKtar_def)

lemma lastKtar_take:
  "ktarNamed kn kan ktn e \<Longrightarrow>
   lastKtar kn kan ktn (e # es) T = lastKtar kn kan ktn es (Some (snd e))"
  by (simp add: lastKtar_def)

lemma untarLoop_skip:
  assumes "\<forall>e \<in> set es. \<not> kernelNamed kn kan e"
  shows "untarLoop lib kn kan ktn cl (stream es tr) K T F =
         untarLoop lib kn kan ktn cl tr K (lastKtar kn kan ktn es T) F"
  using assms
proof (induction es arbitrary: T)
  case Nil
  then show ?case by (simp add: lastKtar_def)
next
  case (Cons e es)
  obtain h c where e: "e = (h, c)" by (cases e)
  from Cons.prems have nk: "\<not> kernelNamed kn kan e" and rest: "\<forall>e \<in> set es. \<not> kernelNamed kn kan e"
    by simp_all
  show ?case
  proof (cases "Name h = ktn")
    case True
    with nk e have "ktarNamed kn kan ktn e" by (simp add: ktarNamed_def)
    moreover from nk e True have "untarLoop lib kn kan ktn cl (stream (e # es) tr) K T F =
        untarLoop lib kn kan ktn cl (stream es tr) K (Some c) F"
      by (simp add: kernelNamed_def)
    ultimately show ?thesis using Cons.IH [OF rest, of "Some c"] e
      by (simp add: lastKtar_take)
  next
    case False
    with e have "\<not> ktarNamed kn kan ktn e" by (simp add: ktarNamed_def)
    moreover from nk e False have "untarLoop lib kn kan ktn cl (stream (e # es) tr) K T F =
        untarLoop lib kn kan ktn cl (stream es tr) K T F"
      by (simp add: kernelNamed_def)
    ultimately show ?thesis using Cons.IH [OF rest, of T] by (simp add: lastKtar_skip)
  qed
qed

lemma stream_append: "stream (es @ fs) tr = stream es (stream fs tr)"
  by (induction es) auto

lemma untarLoop_first_kernel:
  assumes "\<forall>e \<in> set es. \<not> kernelNamed kn kan e" and "kernelNamed kn kan (h, c)"
  shows "untarLoop lib kn kan ktn cl (stream (es @ (h, c) # fs) tr) K T False =
         (case kernelCase lib h (Inr c) cl of
            Inl err \<Rightarrow> Error err
          | Inr k \<Rightarrow> untarLoop lib kn kan ktn cl (stream fs tr) (Some k)
              (lastKtar kn kan ktn es T) True)"
  using assms(2)
  by (simp add: stream_append untarLoop_skip [OF assms(1)] kernelNamed_def)

lemma untarLoop_second_kernel:
  assumes "\<forall>e \<in> set es. \<not> kernelNamed kn kan e" and "kernelNamed kn kan (h, c)"
  shows "untarLoop lib kn kan ktn cl (stream (es @ (h, c) # fs) tr) K T True =
         Error ''found more than one possible kernel image''"
  using assms(2)
  by (simp add: stream_append untarLoop_skip [OF assms(1)] kernelNamed_def)

lemma untarLoop_stream:
  "untarLoop lib kn kan ktn cl (stream es tr) None None False =
     (case filter (kernelNamed kn kan) es of
        [] \<Rightarrow> untarLoop lib kn kan ktn cl tr None (lastKtar kn kan ktn es None) False
      | e # others \<Rightarrow>
          (case kernelCase lib (fst e) (Inr (snd e)) cl of
             Inl err \<Rightarrow> Error err
           | Inr k \<Rightarrow>
               if others \<noteq> [] then Error ''found more than one possible kernel image''
               else untarLoop lib kn kan ktn cl tr (Some k) (lastKtar kn kan ktn es None) True))"
proof (cases "filter (kernelNamed kn kan) es")
  case Nil
  then have "\<forall>e \<in> set es. \<not> kernelNamed kn kan e"
    by (simp add: filter_empty_conv)
  from untarLoop_skip [OF this] Nil show ?thesis by simp
next
  case (Cons e others)
  then obtain us vs where es: "es = us @ e # vs"
    and us: "\<forall>u \<in> set us. \<not> kernelNamed kn kan u"
    and e: "kernelNamed kn kan e" and others: "filter (kernelNamed kn kan) vs = others"
    by (auto simp: filter_eq_Cons_iff)
  obtain h c where hc: "e = (h, c)" by (cases e)
  note first = untarLoop_first_kernel [OF us e [unfolded hc], of lib ktn cl vs tr None None]
  show ?thesis
  proof (cases "kernelCase lib h (Inr c) cl")
    case (Inl err)
    with first Cons es hc show ?thesis by simp
  next
    case (Inr k)
    show ?thesis
    proof (cases others)
      case Nil
      with others have vs: "\<forall>v \<in> set vs. \<not> kernelNamed kn kan v"
        by (simp add: filter_empty_conv)
      from e have nk: "\<not> ktarNamed kn kan ktn e" by (simp add: ktarNamed_def)
      have "lastKtar kn kan ktn es None =
            lastKtar kn kan ktn vs (lastKtar kn kan ktn us None)"
        using nk by (simp add: es lastKtar_append lastKtar_skip)
      with first Inr Cons Nil es hc untarLoop_skip [OF vs] show ?thesis by simp
    next
      case (Cons e2 others2)
      with others obtain us2 vs2 where vs: "vs = us2 @ e2 # vs2"
        and us2: "\<forall>u \<in> set us2. \<not> kernelNamed kn kan u"
        and e2: "kernelNamed kn kan e2"
        by (auto simp: filter_eq_Cons_iff)
      obtain h2 c2 where hc2: "e2 = (h2, c2)" by (cases e2)
      from untarLoop_second_kernel [OF us2 e2 [unfolded hc2]] vs hc2
      have "untarLoop lib kn kan ktn cl (stream vs tr) (Some k)
              (lastKtar kn kan ktn us None) True =
            Error ''found more than one possible kernel image''"
        by simp
      with first Inr Cons \<open>filter (kernelNamed kn kan) es = e # others\<close> es hc show ?thesis by simp
    qed
  qed
qed

lemma kernelNamed_pair:
  "kernelNamed kn kan (hdr, body) \<longleftrightarrow> Name hdr = kn \<or> Name hdr = kan"
  by (simp add: kernelNamed_def)

lemma kernelCase_Inr:
  assumes "kernelCase lib hdr body cmdline = Inr k"
  shows "\<exists>content. body = Inr content \<and>
           Close lib [(bootHeader, []), (kernelHeader hdr, content),
                      (cmdlineHeader cmdline, cmdline)] = Inr k"
  using assms unfolding kernelCase_def
  by (simp split: option.splits sum.splits)

lemma untarLoop_found:
  "untarLoop lib kn kan ktn cl s K T True = Ok (K', T') \<Longrightarrow>
   K' = K \<and> filter (kernelNamed kn kan) (nodes s) = []"
proof (induction s arbitrary: T)
  case EOF
  then show ?case by simp
next
  case (ReadError err)
  then show ?case by simp
next
  case (Entry hdr body s)
  from Entry.prems have nk: "\<not> (Name hdr = kn \<or> Name hdr = kan)"
    by (auto split: if_splits)
  show ?case
  proof (cases "Name hdr = ktn")
    case True
    with nk Entry.prems obtain content where
      "untarLoop lib kn kan ktn cl s K (Some content) True = Ok (K', T')"
      by (auto split: sum.splits)
    from Entry.IH [OF this] nk show ?thesis by (simp add: kernelNamed_pair)
  next
    case False
    with nk Entry.prems have "untarLoop lib kn kan ktn cl s K T True = Ok (K', T')"
      by simp
    from Entry.IH [OF this] nk show ?thesis by (simp add: kernelNamed_pair)
  qed
qed

lemma untarLoop_not_found:
  "untarLoop lib kn kan ktn cl s None T False = Ok (K', T') \<Longrightarrow>
   (K' = None \<and> filter (kernelNamed kn kan) (nodes s) = []) \<or>
   (\<exists>hdr content k. filter (kernelNamed kn kan) (nodes s) = [(hdr, Inr content)] \<and>
      kernelCase lib hdr (Inr content) cl = Inr k \<and> K' = Some k)"
proof (induction s arbitrary: T)
  case EOF
  then show ?case by simp
next
  case (ReadError err)
  then show ?case by simp
next
  case (Entry hdr body s)
  show ?case
  proof (cases "Name hdr = kn \<or> Name hdr = kan")
    case True
    with Entry.prems obtain k where k: "kernelCase lib hdr body cl = Inr k"
      and run: "untarLoop lib kn kan ktn cl s (Some k) T True = Ok (K', T')"
      by (auto split: sum.splits)
    from kernelCase_Inr [OF k] obtain content where body: "body = Inr content" by blast
    from untarLoop_found [OF run] True body k show ?thesis
      by (auto simp: kernelNamed_pair)
  next
    case nk: False
    show ?thesis
    proof (cases "Name hdr = ktn")
      case True
      with nk Entry.prems obtain content where
        "untarLoop lib kn kan ktn cl s None (Some content) False = Ok (K', T')"
        by (auto split: sum.splits)
      from Entry.IH [OF this] nk show ?thesis by (simp add: kernelNamed_pair)
    next
      case False
      with nk Entry.prems have "untarLoop lib kn kan ktn cl s None T False = Ok (K', T')"
        by simp
      from Entry.IH [OF this] nk show ?thesis by (simp add: kernelNamed_pair)
    qed
  qed
qed

lemma untarKernel_Ok:
  assumes "untarKernel lib buf kn kan ktn cmdline = Ok (kernel_buf, ktar)"
  shows "\<exists>hdr content.
           filter (kernelNamed kn kan) (nodes (NewReader lib buf)) = [(hdr, Inr content)] \<and>
           kernelCase lib hdr (Inr content) cmdline = Inr kernel_buf"
proof -
  from assms obtain K T where
    loop: "untarLoop lib kn kan ktn cmdline (NewReader lib buf) None None False = Ok (K, T)"
    and K: "K = Some kernel_buf"
    unfolding untarKernel_def
    by (auto split: result.splits option.splits)
  from untarLoop_not_found [OF loop] K show ?thesis by auto
qed

lemma untarKernel_kernelExport:
  "untarKernel plainTar kernelExport ''kernel'' ''bzImage'' ''kernel.tar'' ''console=ttyS0'' =
     Ok (bootFragment, ''T'')"
  by code_simp

section \<open>Claims about the kernel splitter\<close>

text \<open>
  C4. On a stream that yields the entries \<open>es\<close> and ends, the result of \<open>untarKernel\<close> is
  decided by the entries with a kernel name and those named \<open>ktarName\<close>, the others being
  skipped: with no kernel entry, the error that no kernel was found; with a first kernel
  entry, whatever error the tar writer returns while the boot archive is written, and if
  it returns none, the error that more than one kernel was found when there is another
  kernel entry, the error that no \<open>kernel.tar\<close> was found when there is no such entry, and
  otherwise success, with the content of the last \<open>kernel.tar\<close> entry. And the error that
  more than one kernel was found is returned at the second kernel entry, whatever that
  entry holds and whatever follows it.
\<close>

theorem C4_untarKernel_outcomes:
  "(NewReader lib buf = stream es EOF \<longrightarrow>
      untarKernel lib buf kernelName kernelAltName ktarName cmdline =
        (case filter (kernelNamed kernelName kernelAltName) es of
           [] \<Rightarrow> Error ''did not find kernel in kernel image''
         | e # others \<Rightarrow>
             (case kernelCase lib (fst e) (Inr (snd e)) cmdline of
                Inl err \<Rightarrow> Error err
              | Inr k \<Rightarrow>
                  if others \<noteq> [] then Error ''found more than one possible kernel image''
                  else if filter (ktarNamed kernelName kernelAltName ktarName) es = []
                  then Error ''did not find kernel.tar in kernel image''
                  else Ok (k, snd (last (filter (ktarNamed kernelName kernelAltName ktarName)
                                           es)))))) \<and>
   (NewReader lib buf = stream es (Entry hdr2 body2 tr) \<and>
    filter (kernelNamed kernelName kernelAltName) es = [e1] \<and>
    kernelCase lib (fst e1) (Inr (snd e1)) cmdline = Inr k1 \<and>
    kernelNamed kernelName kernelAltName (hdr2, body2) \<longrightarrow>
      untarKernel lib buf kernelName kernelAltName ktarName cmdline =
        Error ''found more than one possible kernel image'')"
proof (intro conjI impI)
  assume rd: "NewReader lib buf = stream es EOF"
  show "untarKernel lib buf kernelName kernelAltName ktarName cmdline =
        (case filter (kernelNamed kernelName kernelAltName) es of
           [] \<Rightarrow> Error ''did not find kernel in kernel image''
         | e # others \<Rightarrow>
             (case kernelCase lib (fst e) (Inr (snd e)) cmdline of
                Inl err \<Rightarrow> Error err
              | Inr k \<Rightarrow>
                  if others \<noteq> [] then Error ''found more than one possible kernel image''
                  else if filter (ktarNamed kernelName kernelAltName ktarName) es = []
                  then Error ''did not find kernel.tar in kernel image''
                  else Ok (k, snd (last (filter (ktarNamed kernelName kernelAltName ktarName)
                                           es)))))"
    unfolding untarKernel_def rd untarLoop_stream
    by (simp add: lastKtar_def split: list.splits sum.splits)
next
  assume a: "NewReader lib buf = stream es (Entry hdr2 body2 tr) \<and>
    filter (kernelNamed kernelName kernelAltName) es = [e1] \<and>
    kernelCase lib (fst e1) (Inr (snd e1)) cmdline = Inr k1 \<and>
    kernelNamed kernelName kernelAltName (hdr2, body2)"
  then show "untarKernel lib buf kernelName kernelAltName ktarName cmdline =
        Error ''found more than one possible kernel image''"
    unfolding untarKernel_def
    by (simp add: untarLoop_stream kernelNamed_pair)
qed

text \<open>
  C4 on four archives: \<open>kernel\<close> and \<open>bzImage\<close>; no kernel; a kernel and no \<open>kernel.tar\<close>;
  and \<open>kernel.tar\<close>, another file and \<open>bzImage\<close>.
\<close>

theorem C4_witness:
  "untarKernel plainTar
     (concat (map putEntry [regular ''kernel'' ''X'', regular ''bzImage'' ''Y'']))
     ''kernel'' ''bzImage'' ''kernel.tar'' ''console=ttyS0'' =
     Error ''found more than one possible kernel image'' \<and>
   untarKernel plainTar
     (concat (map putEntry [regular ''etc/hosts'' ''h'', regular ''kernel.tar'' ''T'']))
     ''kernel'' ''bzImage'' ''kernel.tar'' ''console=ttyS0'' =
     Error ''did not find kernel in kernel image'' \<and>
   untarKernel plainTar
     (concat (map putEntry [regular ''etc/hosts'' ''h'', regular ''kernel'' ''X'']))
     ''kernel'' ''bzImage'' ''kernel.tar'' ''console=ttyS0'' =
     Error ''did not find kernel.tar in kernel image'' \<and>
   untarKernel plainTar
     (concat (map putEntry
        [regular ''kernel.tar'' ''T'', regular ''etc/hosts'' ''h'', regular ''bzImage'' ''X'']))
     ''kernel'' ''bzImage'' ''kernel.tar'' ''console=ttyS0'' =
     Ok (concat (map putEntry
           [(bootHeader, []), (kernelHeader (fst (regular ''bzImage'' ''X'')), ''X''),
            (cmdlineHeader ''console=ttyS0'', ''console=ttyS0'')]), ''T'')"
proof -
  have r1: "NewReader plainTar
      (concat (map putEntry [regular ''kernel'' ''X'', regular ''bzImage'' ''Y''])) =
      stream [regular ''kernel'' ''X''] (Entry (fst (regular ''bzImage'' ''Y'')) (Inr ''Y'') EOF)"
    by code_simp
  have r2: "NewReader plainTar
      (concat (map putEntry [regular ''etc/hosts'' ''h'', regular ''kernel.tar'' ''T''])) =
      stream [regular ''etc/hosts'' ''h'', regular ''kernel.tar'' ''T''] EOF"
    by code_simp
  have r3: "NewReader plainTar
      (concat (map putEntry [regular ''etc/hosts'' ''h'', regular ''kernel'' ''X''])) =
      stream [regular ''etc/hosts'' ''h'', regular ''kernel'' ''X''] EOF"
    by code_simp
  have r4: "NewReader plainTar
      (concat (map putEntry
        [regular ''kernel.tar'' ''T'', regular ''etc/hosts'' ''h'', regular ''bzImage'' ''X''])) =
      stream [regular ''kernel.tar'' ''T'', regular ''etc/hosts'' ''h'', regular ''bzImage'' ''X'']
        EOF"
    by code_simp
  have k: "kernelCase plainTar (fst (regular ''kernel'' ''X'')) (Inr ''X'') ''console=ttyS0'' =
      Inr (concat (map putEntry
           [(bootHeader, []), (kernelHeader (fst (regular ''kernel'' ''X'')), ''X''),
            (cmdlineHeader ''console=ttyS0'', ''console=ttyS0'')]))"
    by (simp add: kernelCase_def plainTar_def)
  have k4: "kernelCase plainTar (fst (regular ''bzImage'' ''X'')) (Inr ''X'') ''console=ttyS0'' =
      Inr (concat (map putEntry
           [(bootHeader, []), (kernelHeader (fst (regular ''bzImage'' ''X'')), ''X''),
            (cmdlineHeader ''console=ttyS0'', ''console=ttyS0'')]))"
    by (simp add: kernelCase_def plainTar_def)
  have n: "\<And>n c. Name (fst (regular n c)) = n" "\<And>n c. snd (regular n c) = c"
    by (simp_all add: regular_def)
  have c1: "untarKernel plainTar
     (concat (map putEntry [regular ''kernel'' ''X'', regular ''bzImage'' ''Y'']))
     ''kernel'' ''bzImage'' ''kernel.tar'' ''console=ttyS0'' =
     Error ''found more than one possible kernel image''"
    using C4_untarKernel_outcomes [where lib = plainTar and es = "[regular ''kernel'' ''X'']"
        and ?hdr2.0 = "fst (regular ''bzImage'' ''Y'')" and ?body2.0 = "Inr ''Y''" and tr = EOF
        and ?e1.0 = "regular ''kernel'' ''X''" and kernelName = "''kernel''"
        and kernelAltName = "''bzImage''" and cmdline = "''console=ttyS0''"
        and buf = "concat (map putEntry [regular ''kernel'' ''X'', regular ''bzImage'' ''Y''])"
        and ktarName = "''kernel.tar''"]
    by (simp only: r1 k n kernelNamed_def fst_conv snd_conv filter.simps) simp
  have c2: "untarKernel plainTar
     (concat (map putEntry [regular ''etc/hosts'' ''h'', regular ''kernel.tar'' ''T'']))
     ''kernel'' ''bzImage'' ''kernel.tar'' ''console=ttyS0'' =
     Error ''did not find kernel in kernel image''"
    using C4_untarKernel_outcomes [THEN conjunct1, rule_format, OF r2, of
        "''kernel''" "''bzImage''" "''kernel.tar''" "''console=ttyS0''"]
    by (simp add: n kernelNamed_def)
  have c3: "untarKernel plainTar
     (concat (map putEntry [regular ''etc/hosts'' ''h'', regular ''kernel'' ''X'']))
     ''kernel'' ''bzImage'' ''kernel.tar'' ''console=ttyS0'' =
     Error ''did not find kernel.tar in kernel image''"
    using C4_untarKernel_outcomes [THEN conjunct1, rule_format, OF r3, of
        "''kernel''" "''bzImage''" "''kernel.tar''" "''console=ttyS0''"]
    by (simp add: n k kernelNamed_def ktarNamed_def)
  have c4: "untarKernel plainTar
     (concat (map putEntry
        [regular ''kernel.tar'' ''T'', regular ''etc/hosts'' ''h'', regular ''bzImage'' ''X'']))
     ''kernel'' ''bzImage'' ''kernel.tar'' ''console=ttyS0'' =
     Ok (concat (map putEntry
           [(bootHeader, []), (kernelHeader (fst (regular ''bzImage'' ''X'')), ''X''),
            (cmdlineHeader ''console=ttyS0'', ''console=ttyS0'')]), ''T'')"
    using C4_untarKernel_outcomes [THEN conjunct1, rule_format, OF r4, of
        "''kernel''" "''bzImage''" "''kernel.tar''" "''console=ttyS0''"]
    by (simp add: n k4 kernelNamed_def ktarNamed_def)
  from c1 c2 c3 c4 show ?thesis by (intro conjI)
qed

text \<open>
  C5, as the code has it. When \<open>untarKernel\<close> succeeds, the input has exactly one entry
  with a kernel name, its content was read whole, and the first buffer returned is what
  the tar writer leaves on \<open>Close\<close> after exactly three entries: a directory entry named
  \<open>boot\<close> with mode \<open>0700\<close>; \<open>boot/kernel\<close> with the mode, the size and the content of the
  kernel entry; and \<open>boot/cmdline\<close> with mode \<open>0700\<close> and the command line as its content.
\<close>

theorem C5_boot_fragment:
  "untarKernel lib buf kernelName kernelAltName ktarName cmdline = Ok (kernel_buf, ktar) \<Longrightarrow>
   \<exists>hdr content.
     filter (kernelNamed kernelName kernelAltName) (nodes (NewReader lib buf)) =
       [(hdr, Inr content)] \<and>
     Close lib
       [(\<lparr>Name = ''boot'', Mode = 448, Size = 0, Typeflag = CHR ''5''\<rparr>, []),
        (\<lparr>Name = ''boot/kernel'', Mode = Mode hdr, Size = Size hdr, Typeflag = CHR 0x00\<rparr>,
         content),
        (\<lparr>Name = ''boot/cmdline'', Mode = 448, Size = int (length cmdline),
          Typeflag = CHR 0x00\<rparr>, cmdline)] = Inr kernel_buf"
proof -
  assume "untarKernel lib buf kernelName kernelAltName ktarName cmdline = Ok (kernel_buf, ktar)"
  from untarKernel_Ok [OF this] obtain hdr content where
    one: "filter (kernelNamed kernelName kernelAltName) (nodes (NewReader lib buf)) =
            [(hdr, Inr content)]"
    and k: "kernelCase lib hdr (Inr content) cmdline = Inr kernel_buf"
    by blast
  from kernelCase_Inr [OF k] have
    "Close lib [(bootHeader, []), (kernelHeader hdr, content),
                (cmdlineHeader cmdline, cmdline)] = Inr kernel_buf"
    by simp
  with one show ?thesis
    by (simp add: bootHeader_def kernelHeader_def cmdlineHeader_def TypeDir_def)
qed

text \<open>
  C5 on a kernel image with \<open>kernel\<close> (content \<open>X\<close>, mode \<open>0644\<close>) and \<open>kernel.tar\<close>, and the
  command line \<open>console=ttyS0\<close>.
\<close>

theorem C5_witness:
  "untarKernel plainTar kernelExport ''kernel'' ''bzImage'' ''kernel.tar'' ''console=ttyS0'' =
     Ok (bootFragment, ''T'') \<and>
   (\<exists>hdr content.
     filter (kernelNamed ''kernel'' ''bzImage'') (nodes (NewReader plainTar kernelExport)) =
       [(hdr, Inr content)] \<and>
     Close plainTar
       [(\<lparr>Name = ''boot'', Mode = 448, Size = 0, Typeflag = CHR ''5''\<rparr>, []),
        (\<lparr>Name = ''boot/kernel'', Mode = Mode hdr, Size = Size hdr, Typeflag = CHR 0x00\<rparr>,
         content),
        (\<lparr>Name = ''boot/cmdline'', Mode = 448, Size = int (length ''console=ttyS0''),
          Typeflag = CHR 0x00\<rparr>, ''console=ttyS0'')] = Inr bootFragment)"
  using C5_boot_fragment [OF untarKernel_kernelExport] untarKernel_kernelExport
  by simp

text \<open>
  C5, as the claim states it, fails on the name of the first entry: on the same input the
  names read back from the boot archive are \<open>boot\<close>, \<open>boot/kernel\<close> and \<open>boot/cmdline\<close>, and
  the name of the directory entry is not \<open>boot/\<close>.
\<close>

theorem C5_counterexample:
  "untarKernel plainTar kernelExport ''kernel'' ''bzImage'' ''kernel.tar'' ''console=ttyS0'' =
     Ok (bootFragment, ''T'') \<and>
   map (Name \<circ> fst) (nodes (NewReader plainTar bootFragment)) =
     [''boot'', ''boot/kernel'', ''boot/cmdline''] \<and>
   ''boot'' \<noteq> ''boot/''"
  by code_simp

section \<open>The build, step by step\<close>

lemma initrdAppend_Inr:
  "initrdAppend lib s str = Inr s' \<Longrightarrow> s' = s\<lparr>iw := iw s @ entries str\<rparr>"
proof (induction str arbitrary: s)
  case EOF
  then show ?case by simp
next
  case (ReadError err)
  then show ?case by simp
next
  case (Entry hdr body str)
  from Entry.prems obtain content where body: "body = Inr content"
    and run: "initrdAppend lib (s\<lparr>iw := iw s @ [(hdr, content)]\<rparr>) str = Inr s'"
    by (auto split: option.splits sum.splits)
  from Entry.IH [OF run] body show ?case by simp
qed

lemma initrdAppend_Inl:
  "initrdAppend lib s str = Inl (err, s') \<Longrightarrow> \<exists>es. s' = s\<lparr>iw := iw s @ es\<rparr>"
proof (induction str arbitrary: s)
  case EOF
  then show ?case by simp
next
  case (ReadError e)
  then have "s' = s\<lparr>iw := iw s @ []\<rparr>" by simp
  then show ?case by blast
next
  case (Entry hdr body str)
  show ?case
  proof (cases "\<exists>content. WriteHeader lib (iw s) hdr = None \<and> body = Inr content \<and>
                  Write lib (iw s) hdr content = None")
    case True
    then obtain content where
      run: "initrdAppend lib (s\<lparr>iw := iw s @ [(hdr, content)]\<rparr>) str = Inl (err, s')"
      using Entry.prems by auto
    from Entry.IH [OF run] obtain es where "s' = s\<lparr>iw := iw s @ (hdr, content) # es\<rparr>"
      by auto
    then show ?thesis by blast
  next
    case False
    with Entry.prems have "s' = s\<lparr>iw := iw s @ []\<rparr>"
      by (auto split: option.splits sum.splits)
    then show ?thesis by blast
  qed
qed

lemma initrdAppend_trace [simp]:
  "trace (state_of (initrdAppend lib s str)) = trace s"
proof (cases "initrdAppend lib s str")
  case (Inl f)
  obtain err s' where f: "f = (err, s')" by (cases f)
  from initrdAppend_Inl [OF Inl [unfolded f]] Inl f show ?thesis
    by (auto simp: state_of_def)
next
  case (Inr s')
  from initrdAppend_Inr [OF Inr] Inr show ?thesis by (simp add: state_of_def)
qed

lemma initrdAppend_closed [simp]:
  "closed (state_of (initrdAppend lib s str)) = closed s"
proof (cases "initrdAppend lib s str")
  case (Inl f)
  obtain err s' where f: "f = (err, s')" by (cases f)
  from initrdAppend_Inl [OF Inl [unfolded f]] Inl f show ?thesis
    by (auto simp: state_of_def)
next
  case (Inr s')
  from initrdAppend_Inr [OF Inr] Inr show ?thesis by (simp add: state_of_def)
qed

lemma record_call_simps [simp]:
  "trace (record_call env c s) = trace s @ [(c, respond env (length (trace s)) c)]"
  "iw (record_call env c s) = iw s"
  "closed (record_call env c s) = closed s"
  by (simp_all add: record_call_def)

lemma state_of_simps [simp]:
  "state_of (Inl f) = snd f" "state_of (Inr s) = s"
  by (simp_all add: state_of_def)

lemma agrees_iff:
  "agrees env tr \<longleftrightarrow> (\<forall>k < length tr. respond env k (fst (tr ! k)) = snd (tr ! k))"
proof
  assume a: "agrees env tr"
  show "\<forall>k < length tr. respond env k (fst (tr ! k)) = snd (tr ! k)"
  proof (intro allI impI)
    fix k
    assume "k < length tr"
    then have "(k, tr ! k) \<in> set (enumerate 0 tr)" by (simp add: in_set_enumerate_eq)
    with a show "respond env k (fst (tr ! k)) = snd (tr ! k)"
      unfolding agrees_def list_all_iff by fastforce
  qed
next
  assume "\<forall>k < length tr. respond env k (fst (tr ! k)) = snd (tr ! k)"
  then show "agrees env tr"
    unfolding agrees_def list_all_iff by (auto simp: in_set_enumerate_eq)
qed

lemma agrees_append: "agrees env (tr @ t) \<Longrightarrow> agrees env tr"
  unfolding agrees_iff
proof (intro allI impI)
  fix k
  assume a: "\<forall>k<length (tr @ t). respond env k (fst ((tr @ t) ! k)) = snd ((tr @ t) ! k)"
    and k: "k < length tr"
  from a k have "respond env k (fst ((tr @ t) ! k)) = snd ((tr @ t) ! k)" by simp
  with k show "respond env k (fst (tr ! k)) = snd (tr ! k)" by (simp add: nth_append)
qed

lemma agrees_at: "agrees env (tr @ (c, r) # t) \<Longrightarrow> respond env (length tr) c = r"
  unfolding agrees_iff by (drule spec [of _ "length tr"]) simp

lemma record_call_agrees:
  "agrees env2 (trace (record_call env1 c s) @ t) \<Longrightarrow> record_call env2 c s = record_call env1 c s"
  using agrees_at [of env2 "trace s" c "respond env1 (length (trace s)) c" t]
  by (simp add: record_call_def)

lemma fragments_simps [simp]:
  "fragments [] = []" "fragments (tr @ t) = fragments tr @ fragments t"
  "fragments (x # tr) = fragment x @ fragments tr"
  by (simp_all add: fragments_def)

lemma bundlePaths_simps [simp]:
  "bundlePaths [] = []" "bundlePaths (tr @ t) = bundlePaths tr @ bundlePaths t"
  "bundlePaths (x # tr) = bundlePath x @ bundlePaths tr"
  by (simp_all add: bundlePaths_def)

lemma allOk_simps [simp]:
  "allOk [] = True" "allOk (tr @ t) = (allOk tr \<and> allOk t)"
  "allOk (x # tr) = (\<not> failed (snd x) \<and> allOk tr)"
  by (simp_all add: allOk_def)

lemma pullKernel_Inr:
  assumes "pullKernel env m pull s = Inr s'"
  shows "iw s' = iw s \<and> closed s' = closed s \<and> fragments (trace s') = fragments (trace s) \<and>
         bundlePaths (trace s') = bundlePaths (trace s) \<and>
         (allOk (trace s) \<longrightarrow> allOk (trace s'))"
  using assms unfolding pullKernel_def
  by (auto simp: Let_def split: if_splits option.splits)

lemma extractKernel_Inr:
  assumes "extractKernel lib env m pull s = Inr s'" and "kernel_Image (Kernel m) \<noteq> ''''"
  shows "\<exists>out kernel_buf ktar.
           untarKernel lib out ''kernel'' ''bzImage'' ''kernel.tar'' (kernel_Cmdline (Kernel m)) =
             Ok (kernel_buf, ktar) \<and>
           fragments (trace s') =
             fragments (trace s) @ [(Extracted (kernel_Image (Kernel m)), out)] \<and>
           iw s' = iw s @ entries (NewReader lib kernel_buf) @ entries (NewReader lib ktar) \<and>
           bundlePaths (trace s') = bundlePaths (trace s) \<and> closed s' = closed s \<and>
           (allOk (trace s) \<longrightarrow> allOk (trace s'))"
proof -
  let ?c = "ExtractCall (kernel_Image (Kernel m)) ''''
              (enforceContentTrust (kernel_Image (Kernel m)) (Trust m)) pull"
  from assms obtain out kernel_buf ktar s2 where
    out: "ImageExtract env (length (trace s)) (kernel_Image (Kernel m)) ''''
            (enforceContentTrust (kernel_Image (Kernel m)) (Trust m)) pull = Inr out"
    and u: "untarKernel lib out ''kernel'' ''bzImage'' ''kernel.tar''
              (kernel_Cmdline (Kernel m)) = Ok (kernel_buf, ktar)"
    and a1: "initrdAppend lib (record_call env ?c s) (NewReader lib kernel_buf) = Inr s2"
    and a2: "initrdAppend lib s2 (NewReader lib ktar) = Inr s'"
    unfolding extractKernel_def
    by (auto simp: Let_def split: sum.splits result.splits)
  from initrdAppend_Inr [OF a1] initrdAppend_Inr [OF a2] out u show ?thesis
    by (intro exI [of _ out] exI [of _ kernel_buf] exI [of _ ktar]) simp
qed

lemma extractKernel_none:
  assumes "kernel_Image (Kernel m) = ''''"
  shows "extractKernel lib env m pull s = Inr s"
  using assms by (simp add: extractKernel_def)

lemma initBody_Inr:
  assumes "initBody lib env m pull ii s = Inr s'"
  shows "\<exists>b. fragments (trace s') = fragments (trace s) @ [(Extracted ii, b)] \<and>
             iw s' = iw s @ entries (NewReader lib b) \<and>
             bundlePaths (trace s') = bundlePaths (trace s) \<and> closed s' = closed s \<and>
             (allOk (trace s) \<longrightarrow> allOk (trace s'))"
proof -
  let ?c = "ExtractCall ii '''' (enforceContentTrust ii (Trust m)) pull"
  from assms obtain b where
    b: "ImageExtract env (length (trace s)) ii '''' (enforceContentTrust ii (Trust m)) pull
          = Inr b"
    and a: "initrdAppend lib (record_call env ?c s) (NewReader lib b) = Inr s'"
    unfolding initBody_def by (auto simp: Let_def split: sum.splits)
  from initrdAppend_Inr [OF a] b show ?thesis
    by (intro exI [of _ b]) simp
qed

lemma ociBundle_Inr:
  assumes "ociBundle lib env m pull path img s = Inr s'"
  shows "\<exists>b. fragments (trace s') =
               fragments (trace s) @ [(Bundled path (image_Image img), b)] \<and>
             iw s' = iw s @ entries (NewReader lib b) \<and>
             bundlePaths (trace s') = bundlePaths (trace s) @ [(path, image_Image img)] \<and>
             closed s' = closed s \<and> (allOk (trace s) \<longrightarrow> allOk (trace s'))"
proof -
  let ?s1 = "record_call env (OCICall img) s"
  from assms obtain config b where
    c: "ConfigToOCI env (length (trace s)) img = Inr config"
    and b: "ImageBundle env (length (trace ?s1)) path (image_Image img) config
              (enforceContentTrust (image_Image img) (Trust m)) pull = Inr b"
    and a: "initrdAppend lib
              (record_call env (BundleCall path (image_Image img) config
                 (enforceContentTrust (image_Image img) (Trust m)) pull) ?s1)
              (NewReader lib b) = Inr s'"
    unfolding ociBundle_def by (auto simp: Let_def split: sum.splits)
  from initrdAppend_Inr [OF a] b c show ?thesis
    by (intro exI [of _ b]) simp
qed

lemma addFiles_Inr:
  assumes "addFiles lib env m s = Inr s'"
  shows "\<exists>b. fragments (trace s') = fragments (trace s) @ [(Overlay, b)] \<and>
             iw s' = iw s @ entries (NewReader lib b) \<and>
             bundlePaths (trace s') = bundlePaths (trace s) \<and> closed s' = closed s \<and>
             (allOk (trace s) \<longrightarrow> allOk (trace s'))"
proof -
  from assms obtain b where
    b: "filesystem env (length (trace s)) m = Inr b"
    and a: "initrdAppend lib (record_call env (FilesCall m) s) (NewReader lib b) = Inr s'"
    unfolding addFiles_def by (auto simp: Let_def split: sum.splits)
  from initrdAppend_Inr [OF a] b show ?thesis
    by (intro exI [of _ b]) simp
qed

lemma forEach_Inr:
  assumes body: "\<And>x s s'. body x s = Inr s' \<Longrightarrow>
             \<exists>b. fragments (trace s') = fragments (trace s) @ [(src x, b)] \<and>
                 iw s' = iw s @ entries (NewReader lib b) \<and>
                 bundlePaths (trace s') = bundlePaths (trace s) @ g x \<and>
                 closed s' = closed s \<and> (allOk (trace s) \<longrightarrow> allOk (trace s'))"
  shows "forEach body xs s = Inr s' \<Longrightarrow>
         \<exists>bs. length bs = length xs \<and>
              fragments (trace s') = fragments (trace s) @ zip (map src xs) bs \<and>
              iw s' = iw s @ concat (map (\<lambda>b. entries (NewReader lib b)) bs) \<and>
              bundlePaths (trace s') = bundlePaths (trace s) @ concat (map g xs) \<and>
              closed s' = closed s \<and> (allOk (trace s) \<longrightarrow> allOk (trace s'))"
proof (induction xs arbitrary: s)
  case Nil
  then show ?case by simp
next
  case (Cons x xs)
  from Cons.prems obtain s1 where s1: "body x s = Inr s1" and rest: "forEach body xs s1 = Inr s'"
    by (auto split: sum.splits)
  from body [OF s1] obtain b where b:
    "fragments (trace s1) = fragments (trace s) @ [(src x, b)]"
    "iw s1 = iw s @ entries (NewReader lib b)"
    "bundlePaths (trace s1) = bundlePaths (trace s) @ g x"
    "closed s1 = closed s" "allOk (trace s) \<longrightarrow> allOk (trace s1)"
    by blast
  from Cons.IH [OF rest] obtain bs where bs:
    "length bs = length xs"
    "fragments (trace s') = fragments (trace s1) @ zip (map src xs) bs"
    "iw s' = iw s1 @ concat (map (\<lambda>b. entries (NewReader lib b)) bs)"
    "bundlePaths (trace s') = bundlePaths (trace s1) @ concat (map g xs)"
    "closed s' = closed s1" "allOk (trace s1) \<longrightarrow> allOk (trace s')"
    by blast
  from b bs show ?case
    by (intro exI [of _ "b # bs"]) simp
qed

lemma closeArchive_Inr:
  "closeArchive lib s = Inr (w, s') \<Longrightarrow> Close lib (iw s) = Inr w \<and> s' = s\<lparr>closed := True\<rparr>"
  by (auto simp: closeArchive_def split: sum.splits)

lemma buildInternal_Inr:
  assumes run: "buildInternal lib env m pull = Inr (w, s)"
  shows "\<exists>kfrag kents inits onboots services overlay.
     (if kernel_Image (Kernel m) = '''' then kfrag = [] \<and> kents = []
      else \<exists>out kernel_buf ktar.
             untarKernel lib out ''kernel'' ''bzImage'' ''kernel.tar''
               (kernel_Cmdline (Kernel m)) = Ok (kernel_buf, ktar) \<and>
             kfrag = [(Extracted (kernel_Image (Kernel m)), out)] \<and>
             kents = entries (NewReader lib kernel_buf) @ entries (NewReader lib ktar)) \<and>
     length inits = length (Init m) \<and> length onboots = length (Onboot m) \<and>
     length services = length (Services m) \<and>
     fragments (trace s) =
       kfrag @ zip (map Extracted (Init m)) inits
       @ zip (map (\<lambda>x. Bundled (onbootPath x) (image_Image (snd x))) (enumerate 0 (Onboot m)))
           onboots
       @ zip (map (\<lambda>img. Bundled (servicesPath img) (image_Image img)) (Services m)) services
       @ [(Overlay, overlay)] \<and>
     iw s =
       kents @ concat (map (\<lambda>b. entries (NewReader lib b)) inits)
       @ concat (map (\<lambda>b. entries (NewReader lib b)) onboots)
       @ concat (map (\<lambda>b. entries (NewReader lib b)) services)
       @ entries (NewReader lib overlay) \<and>
     bundlePaths (trace s) =
       map (\<lambda>x. (onbootPath x, image_Image (snd x))) (enumerate 0 (Onboot m))
       @ map (\<lambda>img. (servicesPath img, image_Image img)) (Services m) \<and>
     Close lib (iw s) = Inr w \<and> closed s \<and> allOk (trace s)"
proof -
  let ?s0 = "start :: 'a build"
  from run obtain s1 s2 s3 s4 s5 s6 where
    p: "pullKernel env m pull ?s0 = Inr s1"
    and k: "extractKernel lib env m pull s1 = Inr s2"
    and i: "forEach (initBody lib env m pull) (Init m) s2 = Inr s3"
    and ob: "forEach (onbootBody lib env m pull) (enumerate 0 (Onboot m)) s3 = Inr s4"
    and sv: "forEach (servicesBody lib env m pull) (Services m) s4 = Inr s5"
    and f: "addFiles lib env m s5 = Inr s6"
    and c: "closeArchive lib s6 = Inr (w, s)"
    unfolding buildInternal_def by (auto split: sum.splits)
  from pullKernel_Inr [OF p] have s1:
    "iw s1 = []" "\<not> closed s1" "fragments (trace s1) = []" "bundlePaths (trace s1) = []"
    "allOk (trace s1)"
    by (simp_all add: start_def)
  obtain kfrag kents where s2:
    "if kernel_Image (Kernel m) = '''' then kfrag = [] \<and> kents = []
      else \<exists>out kernel_buf ktar.
             untarKernel lib out ''kernel'' ''bzImage'' ''kernel.tar''
               (kernel_Cmdline (Kernel m)) = Ok (kernel_buf, ktar) \<and>
             kfrag = [(Extracted (kernel_Image (Kernel m)), out)] \<and>
             kents = entries (NewReader lib kernel_buf) @ entries (NewReader lib ktar)"
    "fragments (trace s2) = kfrag" "iw s2 = kents" "bundlePaths (trace s2) = []"
    "\<not> closed s2" "allOk (trace s2)"
  proof (cases "kernel_Image (Kernel m) = ''''")
    case True
    with k s1 that [of "[]" "[]"] show ?thesis by (simp add: extractKernel_none)
  next
    case False
    from extractKernel_Inr [OF k False] s1 obtain out kernel_buf ktar where
      "untarKernel lib out ''kernel'' ''bzImage'' ''kernel.tar'' (kernel_Cmdline (Kernel m)) =
         Ok (kernel_buf, ktar)"
      "fragments (trace s2) = [(Extracted (kernel_Image (Kernel m)), out)]"
      "iw s2 = entries (NewReader lib kernel_buf) @ entries (NewReader lib ktar)"
      "bundlePaths (trace s2) = []" "\<not> closed s2" "allOk (trace s2)"
      by auto
    with False that [of "[(Extracted (kernel_Image (Kernel m)), out)]"
        "entries (NewReader lib kernel_buf) @ entries (NewReader lib ktar)"]
    show ?thesis by auto
  qed
  have "\<And>x s s'. initBody lib env m pull x s = Inr s' \<Longrightarrow>
      \<exists>b. fragments (trace s') = fragments (trace s) @ [(Extracted x, b)] \<and>
          iw s' = iw s @ entries (NewReader lib b) \<and>
          bundlePaths (trace s') = bundlePaths (trace s) @ (\<lambda>x. []) x \<and>
          closed s' = closed s \<and> (allOk (trace s) \<longrightarrow> allOk (trace s'))"
    using initBody_Inr by fastforce
  from forEach_Inr [where src = Extracted and g = "\<lambda>x. []", OF this i] obtain inits where s3:
    "length inits = length (Init m)"
    "fragments (trace s3) = fragments (trace s2) @ zip (map Extracted (Init m)) inits"
    "iw s3 = iw s2 @ concat (map (\<lambda>b. entries (NewReader lib b)) inits)"
    "bundlePaths (trace s3) = bundlePaths (trace s2)"
    "closed s3 = closed s2" "allOk (trace s2) \<longrightarrow> allOk (trace s3)"
    by auto
  have "\<And>x s s'. onbootBody lib env m pull x s = Inr s' \<Longrightarrow>
      \<exists>b. fragments (trace s') =
            fragments (trace s) @ [(Bundled (onbootPath x) (image_Image (snd x)), b)] \<and>
          iw s' = iw s @ entries (NewReader lib b) \<and>
          bundlePaths (trace s') =
            bundlePaths (trace s) @ (\<lambda>x. [(onbootPath x, image_Image (snd x))]) x \<and>
          closed s' = closed s \<and> (allOk (trace s) \<longrightarrow> allOk (trace s'))"
    unfolding onbootBody_def Let_def onbootPath_def by (rule ociBundle_Inr)
  from forEach_Inr [where src = "\<lambda>x. Bundled (onbootPath x) (image_Image (snd x))"
      and g = "\<lambda>x. [(onbootPath x, image_Image (snd x))]", OF this ob]
  obtain onboots where s4:
    "length onboots = length (Onboot m)"
    "fragments (trace s4) = fragments (trace s3)
       @ zip (map (\<lambda>x. Bundled (onbootPath x) (image_Image (snd x))) (enumerate 0 (Onboot m)))
           onboots"
    "iw s4 = iw s3 @ concat (map (\<lambda>b. entries (NewReader lib b)) onboots)"
    "bundlePaths (trace s4) = bundlePaths (trace s3)
       @ map (\<lambda>x. (onbootPath x, image_Image (snd x))) (enumerate 0 (Onboot m))"
    "closed s4 = closed s3" "allOk (trace s3) \<longrightarrow> allOk (trace s4)"
    by (auto simp: concat_map_singleton)
  have "\<And>x s s'. servicesBody lib env m pull x s = Inr s' \<Longrightarrow>
      \<exists>b. fragments (trace s') =
            fragments (trace s) @ [(Bundled (servicesPath x) (image_Image x), b)] \<and>
          iw s' = iw s @ entries (NewReader lib b) \<and>
          bundlePaths (trace s') =
            bundlePaths (trace s) @ (\<lambda>x. [(servicesPath x, image_Image x)]) x \<and>
          closed s' = closed s \<and> (allOk (trace s) \<longrightarrow> allOk (trace s'))"
    unfolding servicesBody_def Let_def servicesPath_def by (rule ociBundle_Inr)
  from forEach_Inr [where src = "\<lambda>x. Bundled (servicesPath x) (image_Image x)"
      and g = "\<lambda>x. [(servicesPath x, image_Image x)]", OF this sv]
  obtain services where s5:
    "length services = length (Services m)"
    "fragments (trace s5) = fragments (trace s4)
       @ zip (map (\<lambda>img. Bundled (servicesPath img) (image_Image img)) (Services m)) services"
    "iw s5 = iw s4 @ concat (map (\<lambda>b. entries (NewReader lib b)) services)"
    "bundlePaths (trace s5) = bundlePaths (trace s4)
       @ map (\<lambda>img. (servicesPath img, image_Image img)) (Services m)"
    "closed s5 = closed s4" "allOk (trace s4) \<longrightarrow> allOk (trace s5)"
    by (auto simp: concat_map_singleton)
  from addFiles_Inr [OF f] obtain overlay where s6:
    "fragments (trace s6) = fragments (trace s5) @ [(Overlay, overlay)]"
    "iw s6 = iw s5 @ entries (NewReader lib overlay)"
    "bundlePaths (trace s6) = bundlePaths (trace s5)"
    "closed s6 = closed s5" "allOk (trace s5) \<longrightarrow> allOk (trace s6)"
    by auto
  from closeArchive_Inr [OF c] have s7: "Close lib (iw s6) = Inr w" "s = s6\<lparr>closed := True\<rparr>"
    by simp_all
  show ?thesis
    apply (rule exI [of _ kfrag], rule exI [of _ kents], rule exI [of _ inits])
    apply (rule exI [of _ onboots], rule exI [of _ services], rule exI [of _ overlay])
    using s2 s3 s4 s5 s6 s7 by simp
qed

lemma respond_agrees:
  assumes "agrees env2 (trace (record_call env1 c s) @ t)"
  shows "respond env2 (length (trace s)) c = respond env1 (length (trace s)) c"
  using agrees_at [of env2 "trace s" c "respond env1 (length (trace s)) c" t] assms
  by simp

lemma record_call_cong:
  "respond env2 (length (trace s)) c = respond env1 (length (trace s)) c \<Longrightarrow>
   record_call env2 c s = record_call env1 c s"
  by (simp add: record_call_def)

lemma trace_then_append [simp]:
  "trace (state_of (case r of Inl f \<Rightarrow> Inl f | Inr s2 \<Rightarrow> initrdAppend lib s2 str)) =
   trace (state_of r)"
  by (cases r) simp_all

lemma pullKernel_trace:
  "\<exists>t. trace (state_of (pullKernel env m pull s)) = trace s @ t"
  by (simp add: pullKernel_def Let_def split: option.splits)

lemma pullKernel_replay:
  assumes "agrees env2 (trace (state_of (pullKernel env1 m pull s)))"
  shows "pullKernel env2 m pull s = pullKernel env1 m pull s"
proof (cases "pull \<or> enforceContentTrust (kernel_Image (Kernel m)) (Trust m)")
  case True
  let ?c = "PullCall (kernel_Image (Kernel m))
              (enforceContentTrust (kernel_Image (Kernel m)) (Trust m))"
  from True have "trace (state_of (pullKernel env1 m pull s)) = trace (record_call env1 ?c s) @ []"
    by (simp add: pullKernel_def Let_def split: option.splits)
  with assms have r: "respond env2 (length (trace s)) ?c = respond env1 (length (trace s)) ?c"
    by (intro respond_agrees [of env2 env1 ?c s "[]"]) simp
  from r have e: "dockerPull env2 (length (trace s)) (kernel_Image (Kernel m))
                 (enforceContentTrust (kernel_Image (Kernel m)) (Trust m)) =
               dockerPull env1 (length (trace s)) (kernel_Image (Kernel m))
                 (enforceContentTrust (kernel_Image (Kernel m)) (Trust m))"
    by simp
  show ?thesis
    unfolding pullKernel_def Let_def e record_call_cong [OF r] by (rule refl)
next
  case False
  then show ?thesis by (simp add: pullKernel_def)
qed

lemma extractKernel_trace:
  "\<exists>t. trace (state_of (extractKernel lib env m pull s)) = trace s @ t"
  by (simp add: extractKernel_def Let_def split: sum.splits result.splits)

lemma extractKernel_replay:
  assumes "agrees env2 (trace (state_of (extractKernel lib env1 m pull s)))"
  shows "extractKernel lib env2 m pull s = extractKernel lib env1 m pull s"
proof (cases "kernel_Image (Kernel m) \<noteq> ''''")
  case True
  let ?c = "ExtractCall (kernel_Image (Kernel m)) ''''
              (enforceContentTrust (kernel_Image (Kernel m)) (Trust m)) pull"
  from True have "trace (state_of (extractKernel lib env1 m pull s)) =
                  trace (record_call env1 ?c s) @ []"
    by (simp add: extractKernel_def Let_def split: sum.splits result.splits)
  with assms have r: "respond env2 (length (trace s)) ?c = respond env1 (length (trace s)) ?c"
    by (intro respond_agrees [of env2 env1 ?c s "[]"]) simp
  from r have e: "ImageExtract env2 (length (trace s)) (kernel_Image (Kernel m)) ''''
                 (enforceContentTrust (kernel_Image (Kernel m)) (Trust m)) pull =
               ImageExtract env1 (length (trace s)) (kernel_Image (Kernel m)) ''''
                 (enforceContentTrust (kernel_Image (Kernel m)) (Trust m)) pull"
    by simp
  show ?thesis
    unfolding extractKernel_def Let_def e record_call_cong [OF r] by (rule refl)
next
  case False
  then show ?thesis by (simp add: extractKernel_def)
qed

lemma initBody_trace:
  "\<exists>t. trace (state_of (initBody lib env m pull ii s)) = trace s @ t"
  by (simp add: initBody_def Let_def split: sum.splits)

lemma initBody_replay:
  assumes "agrees env2 (trace (state_of (initBody lib env1 m pull ii s)))"
  shows "initBody lib env2 m pull ii s = initBody lib env1 m pull ii s"
proof -
  let ?c = "ExtractCall ii '''' (enforceContentTrust ii (Trust m)) pull"
  have "trace (state_of (initBody lib env1 m pull ii s)) = trace (record_call env1 ?c s) @ []"
    by (simp add: initBody_def Let_def split: sum.splits)
  with assms have r: "respond env2 (length (trace s)) ?c = respond env1 (length (trace s)) ?c"
    by (intro respond_agrees [of env2 env1 ?c s "[]"]) simp
  from r have e: "ImageExtract env2 (length (trace s)) ii '''' (enforceContentTrust ii (Trust m))
                 pull =
               ImageExtract env1 (length (trace s)) ii '''' (enforceContentTrust ii (Trust m))
                 pull"
    by simp
  show ?thesis
    unfolding initBody_def Let_def e record_call_cong [OF r] by (rule refl)
qed

lemma addFiles_trace:
  "\<exists>t. trace (state_of (addFiles lib env m s)) = trace s @ t"
  by (simp add: addFiles_def Let_def split: sum.splits)

lemma addFiles_replay:
  assumes "agrees env2 (trace (state_of (addFiles lib env1 m s)))"
  shows "addFiles lib env2 m s = addFiles lib env1 m s"
proof -
  have "trace (state_of (addFiles lib env1 m s)) =
        trace (record_call env1 (FilesCall m) s) @ []"
    by (simp add: addFiles_def Let_def split: sum.splits)
  with assms have r: "respond env2 (length (trace s)) (FilesCall m) =
                      respond env1 (length (trace s)) (FilesCall m)"
    by (intro respond_agrees [of env2 env1 "FilesCall m" s "[]"]) simp
  from r have e: "filesystem env2 (length (trace s)) m = filesystem env1 (length (trace s)) m"
    by simp
  show ?thesis
    unfolding addFiles_def Let_def e record_call_cong [OF r] by (rule refl)
qed

lemma ociBundle_trace:
  "\<exists>t. trace (state_of (ociBundle lib env m pull path img s)) = trace s @ t"
  by (simp add: ociBundle_def Let_def split: sum.splits)

lemma ociBundle_replay:
  assumes "agrees env2 (trace (state_of (ociBundle lib env1 m pull path img s)))"
  shows "ociBundle lib env2 m pull path img s = ociBundle lib env1 m pull path img s"
proof -
  let ?s1 = "record_call env1 (OCICall img) s"
  have "\<exists>t. trace (state_of (ociBundle lib env1 m pull path img s)) = trace ?s1 @ t"
    by (simp add: ociBundle_def Let_def split: sum.splits)
  then obtain t where "trace (state_of (ociBundle lib env1 m pull path img s)) = trace ?s1 @ t"
    by blast
  with assms have r: "respond env2 (length (trace s)) (OCICall img) =
                      respond env1 (length (trace s)) (OCICall img)"
    by (intro respond_agrees [of env2 env1 "OCICall img" s t]) simp
  note s1 = record_call_cong [OF r]
  from r have c: "ConfigToOCI env2 (length (trace s)) img = ConfigToOCI env1 (length (trace s)) img"
    by simp
  show ?thesis
  proof (cases "ConfigToOCI env1 (length (trace s)) img")
    case (Inl err)
    show ?thesis
      unfolding ociBundle_def Let_def c s1 Inl by simp
  next
    case (Inr config)
    let ?c = "BundleCall path (image_Image img) config
                (enforceContentTrust (image_Image img) (Trust m)) pull"
    from Inr have "trace (state_of (ociBundle lib env1 m pull path img s)) =
                   trace (record_call env1 ?c ?s1) @ []"
      by (simp add: ociBundle_def Let_def split: sum.splits)
    with assms have r2: "respond env2 (length (trace ?s1)) ?c =
                         respond env1 (length (trace ?s1)) ?c"
      by (intro respond_agrees [of env2 env1 ?c ?s1 "[]"]) simp
    from r2 have e2: "ImageBundle env2 (length (trace ?s1)) path (image_Image img) config
                    (enforceContentTrust (image_Image img) (Trust m)) pull =
                  ImageBundle env1 (length (trace ?s1)) path (image_Image img) config
                    (enforceContentTrust (image_Image img) (Trust m)) pull"
      by simp
    show ?thesis
      unfolding ociBundle_def Let_def c s1 Inr sum.case e2 record_call_cong [OF r2]
      by (rule refl)
  qed
qed

lemma forEach_trace:
  assumes "\<And>x s. \<exists>t. trace (state_of (body x s)) = trace s @ t"
  shows "\<exists>t. trace (state_of (forEach body xs s)) = trace s @ t"
proof (induction xs arbitrary: s)
  case Nil
  then show ?case by simp
next
  case (Cons x xs)
  show ?case
  proof (cases "body x s")
    case (Inl f)
    with assms [of x s] show ?thesis by simp
  next
    case (Inr s1)
    from assms [of x s] Inr obtain t1 where "trace s1 = trace s @ t1" by auto
    moreover from Cons.IH [of s1] obtain t2 where
      "trace (state_of (forEach body xs s1)) = trace s1 @ t2" by blast
    ultimately show ?thesis using Inr by simp
  qed
qed

lemma forEach_replay:
  assumes tr: "\<And>x s. \<exists>t. trace (state_of (body1 x s)) = trace s @ t"
    and rp: "\<And>x s. agrees env2 (trace (state_of (body1 x s))) \<Longrightarrow> body2 x s = body1 x s"
  shows "agrees env2 (trace (state_of (forEach body1 xs s))) \<Longrightarrow>
         forEach body2 xs s = forEach body1 xs s"
proof (induction xs arbitrary: s)
  case Nil
  then show ?case by simp
next
  case (Cons x xs)
  show ?case
  proof (cases "body1 x s")
    case (Inl f)
    with Cons.prems have "agrees env2 (trace (state_of (body1 x s)))" by simp
    from rp [OF this] Inl show ?thesis by simp
  next
    case (Inr s1)
    from forEach_trace [of body1 xs s1, OF tr] obtain t where
      t: "trace (state_of (forEach body1 xs s1)) = trace s1 @ t" by blast
    from Cons.prems Inr have a: "agrees env2 (trace (state_of (forEach body1 xs s1)))" by simp
    with t have "agrees env2 (trace s1)" by (auto dest: agrees_append)
    with Inr have "agrees env2 (trace (state_of (body1 x s)))" by simp
    from rp [OF this] Inr Cons.IH [OF a] show ?thesis by simp
  qed
qed

lemma forEach_append:
  "forEach body (xs @ ys) s =
     (case forEach body xs s of Inl f \<Rightarrow> Inl f | Inr s' \<Rightarrow> forEach body ys s')"
  by (induction xs arbitrary: s) (auto split: sum.splits)

lemma forEach_map: "forEach body (map f xs) s = forEach (\<lambda>x. body (f x)) xs s"
  by (induction xs arbitrary: s) (auto split: sum.splits)

lemma then_assoc:
  "(case (case r of Inl f \<Rightarrow> Inl f | Inr s \<Rightarrow> g s) of Inl f \<Rightarrow> Inl f | Inr s \<Rightarrow> h s) =
   (case r of Inl f \<Rightarrow> Inl f | Inr s \<Rightarrow> (case g s of Inl f \<Rightarrow> Inl f | Inr s \<Rightarrow> h s))"
  by (cases r) simp_all

lemma runStep_bodies:
  "(\<lambda>x. runStep lib env m pull (InitStep x)) = initBody lib env m pull"
  "(\<lambda>x. runStep lib env m pull (OnbootStep x)) = onbootBody lib env m pull"
  "(\<lambda>x. runStep lib env m pull (ServicesStep x)) = servicesBody lib env m pull"
  by (intro ext, simp)+

lemma buildInternal_steps:
  "buildInternal lib env m pull =
     (case forEach (runStep lib env m pull) (steps m) start of
        Inl f \<Rightarrow> Inl f
      | Inr s \<Rightarrow> closeArchive lib s)"
  unfolding buildInternal_def steps_def
  by (simp add: forEach_append forEach_map runStep_bodies then_assoc cong: sum.case_cong)

lemma runStep_trace:
  "\<exists>t. trace (state_of (runStep lib env m pull st s)) = trace s @ t"
  by (cases st)
     (simp_all add: pullKernel_trace extractKernel_trace initBody_trace ociBundle_trace
        addFiles_trace onbootBody_def servicesBody_def Let_def)

lemma runStep_replay:
  "agrees env2 (trace (state_of (runStep lib env1 m pull st s))) \<Longrightarrow>
   runStep lib env2 m pull st s = runStep lib env1 m pull st s"
  by (cases st)
     (simp_all add: pullKernel_replay extractKernel_replay initBody_replay ociBundle_replay
        addFiles_replay onbootBody_def servicesBody_def Let_def)

lemma final_state_trace:
  "trace (final_state (buildInternal lib env m pull)) =
   trace (state_of (forEach (runStep lib env m pull) (steps m) start))"
  unfolding buildInternal_steps
  by (auto simp: final_state_def closeArchive_def split: sum.splits)

lemma allOk_butlast: "allOk tr \<Longrightarrow> allOk (butlast tr)"
  by (induction tr) auto

lemma sound_initrdAppend:
  assumes "closed s1 = closed s" and "allOk (trace s) \<longrightarrow> allOk (trace s1)"
  shows "sound s (initrdAppend lib s1 str)"
proof -
  have "trace (state_of (initrdAppend lib s1 str)) = trace s1"
    and "closed (state_of (initrdAppend lib s1 str)) = closed s1"
    by simp_all
  with assms show ?thesis
    by (cases "initrdAppend lib s1 str") (auto simp: sound_def allOk_butlast)
qed

lemma sound_then_append:
  assumes "sound s r"
  shows "sound s (case r of Inl f \<Rightarrow> Inl f | Inr s2 \<Rightarrow> initrdAppend lib s2 str)"
proof (cases r)
  case (Inl f)
  with assms show ?thesis by simp
next
  case (Inr s2)
  with assms have "closed s2 = closed s" "allOk (trace s) \<longrightarrow> allOk (trace s2)"
    by (simp_all add: sound_def)
  from sound_initrdAppend [OF this] Inr show ?thesis by simp
qed

lemma sound_failed_call:
  "sound s (Inl (msg, record_call env c s))"
  by (simp add: sound_def)

lemma sound_pullKernel: "sound s (pullKernel env m pull s)"
  unfolding pullKernel_def Let_def
  by (auto simp: sound_def split: option.splits)

lemma sound_initBody: "sound s (initBody lib env m pull ii s)"
  unfolding initBody_def Let_def
  by (auto intro!: sound_initrdAppend sound_failed_call split: sum.splits)

lemma sound_addFiles: "sound s (addFiles lib env m s)"
  unfolding addFiles_def Let_def
  by (auto intro!: sound_initrdAppend sound_failed_call split: sum.splits)

lemma sound_extractKernel: "sound s (extractKernel lib env m pull s)"
proof (cases "kernel_Image (Kernel m) \<noteq> ''''")
  case False
  then show ?thesis by (simp add: extractKernel_def sound_def)
next
  case True
  let ?c = "ExtractCall (kernel_Image (Kernel m)) ''''
              (enforceContentTrust (kernel_Image (Kernel m)) (Trust m)) pull"
  let ?s1 = "record_call env ?c s"
  show ?thesis
  proof (cases "ImageExtract env (length (trace s)) (kernel_Image (Kernel m)) ''''
                  (enforceContentTrust (kernel_Image (Kernel m)) (Trust m)) pull")
    case (Inl err)
    with True show ?thesis
      unfolding extractKernel_def Let_def by (simp add: sound_failed_call)
  next
    case (Inr out)
    then have s1: "closed ?s1 = closed s" "allOk (trace s) \<longrightarrow> allOk (trace ?s1)"
      by simp_all
    show ?thesis
    proof (cases "untarKernel lib out ''kernel'' ''bzImage'' ''kernel.tar''
                    (kernel_Cmdline (Kernel m))")
      case (Fatal err)
      with True Inr show ?thesis
        unfolding extractKernel_def Let_def by (simp add: sound_def)
    next
      case (Error err)
      with True Inr show ?thesis
        unfolding extractKernel_def Let_def by (simp add: sound_def)
    next
      case (Ok p)
      obtain kernel_buf ktar where p: "p = (kernel_buf, ktar)" by (cases p)
      have "sound s (case initrdAppend lib ?s1 (NewReader lib kernel_buf) of
                       Inl f \<Rightarrow> Inl f
                     | Inr s2 \<Rightarrow> initrdAppend lib s2 (NewReader lib ktar))"
        by (intro sound_then_append sound_initrdAppend s1)
      with True Inr Ok p show ?thesis
        unfolding extractKernel_def Let_def by simp
    qed
  qed
qed

lemma sound_ociBundle: "sound s (ociBundle lib env m pull path img s)"
proof (cases "ConfigToOCI env (length (trace s)) img")
  case (Inl err)
  then show ?thesis
    unfolding ociBundle_def Let_def by (simp add: sound_failed_call)
next
  case (Inr config)
  let ?s1 = "record_call env (OCICall img) s"
  let ?c = "BundleCall path (image_Image img) config
              (enforceContentTrust (image_Image img) (Trust m)) pull"
  show ?thesis
  proof (cases "ImageBundle env (length (trace ?s1)) path (image_Image img) config
                  (enforceContentTrust (image_Image img) (Trust m)) pull")
    case (Inl err)
    with Inr show ?thesis
      unfolding ociBundle_def Let_def by (simp add: sound_def butlast_append)
  next
    case out: (Inr out)
    have "sound s (initrdAppend lib (record_call env ?c ?s1) (NewReader lib out))"
      using Inr out by (intro sound_initrdAppend) simp_all
    with Inr out show ?thesis
      unfolding ociBundle_def Let_def by simp
  qed
qed

lemma sound_runStep: "sound s (runStep lib env m pull st s)"
  by (cases st)
     (simp_all add: sound_pullKernel sound_extractKernel sound_initBody sound_ociBundle
        sound_addFiles onbootBody_def servicesBody_def Let_def)

lemma sound_forEach:
  assumes "\<And>x s. sound s (body x s)"
  shows "sound s (forEach body xs s)"
proof (induction xs arbitrary: s)
  case Nil
  then show ?case by (simp add: sound_def)
next
  case (Cons x xs)
  show ?case
  proof (cases "body x s")
    case (Inl f)
    with assms [of s x] show ?thesis by simp
  next
    case (Inr s1)
    with assms [of s x] Cons.IH [of s1] show ?thesis
      by (auto simp: sound_def split: sum.splits)
  qed
qed

lemma buildInternal_Inl_sound:
  assumes "buildInternal lib env m pull = Inl f"
  shows "\<not> closed (snd f) \<and> allOk (butlast (trace (snd f)))"
proof -
  let ?r = "forEach (runStep lib env m pull) (steps m) (start :: 'a build)"
  have snd: "sound start ?r"
    by (rule sound_forEach) (rule sound_runStep)
  show ?thesis
  proof (cases ?r)
    case (Inl g)
    with assms have "f = g" by (simp add: buildInternal_steps)
    with snd Inl show ?thesis by (simp add: sound_def start_def)
  next
    case (Inr s)
    with assms obtain err where "f = (''initrd close error: '' @ err, s)"
      by (auto simp: buildInternal_steps closeArchive_def split: sum.splits)
    with snd Inr show ?thesis by (simp add: sound_def start_def allOk_butlast)
  qed
qed

lemma bundlePaths_then_append [simp]:
  "bundlePaths (trace (state_of (initrdAppend lib s str))) = bundlePaths (trace s)"
  by simp

lemma pullKernel_bundles:
  "bundlePaths (trace (state_of (pullKernel env m pull s))) = bundlePaths (trace s)"
  by (simp add: pullKernel_def Let_def split: option.splits)

lemma extractKernel_bundles:
  "bundlePaths (trace (state_of (extractKernel lib env m pull s))) = bundlePaths (trace s)"
  by (simp add: extractKernel_def Let_def split: sum.splits result.splits)

lemma initBody_bundles:
  "bundlePaths (trace (state_of (initBody lib env m pull ii s))) = bundlePaths (trace s)"
  by (simp add: initBody_def Let_def split: sum.splits)

lemma addFiles_bundles:
  "bundlePaths (trace (state_of (addFiles lib env m s))) = bundlePaths (trace s)"
  by (simp add: addFiles_def Let_def split: sum.splits)

lemma ociBundle_bundles:
  "\<exists>n. bundlePaths (trace (state_of (ociBundle lib env m pull path img s))) =
        bundlePaths (trace s) @ take n [(path, image_Image img)]"
proof (cases "ConfigToOCI env (length (trace s)) img")
  case (Inl err)
  then have "bundlePaths (trace (state_of (ociBundle lib env m pull path img s))) =
             bundlePaths (trace s) @ take 0 [(path, image_Image img)]"
    by (simp add: ociBundle_def Let_def)
  then show ?thesis by blast
next
  case (Inr config)
  then have "bundlePaths (trace (state_of (ociBundle lib env m pull path img s))) =
             bundlePaths (trace s) @ take 1 [(path, image_Image img)]"
    by (simp add: ociBundle_def Let_def split: sum.splits)
  then show ?thesis by blast
qed

lemma runStep_bundles:
  "\<exists>n. bundlePaths (trace (state_of (runStep lib env m pull st s))) =
        bundlePaths (trace s) @ take n (bundleOf st)"
proof (cases st)
  case (OnbootStep x)
  then show ?thesis
    using ociBundle_bundles [of lib env m pull "onbootPath x" "snd x" s]
    by (simp add: onbootBody_def Let_def onbootPath_def)
next
  case (ServicesStep img)
  then show ?thesis
    using ociBundle_bundles [of lib env m pull "servicesPath img" img s]
    by (simp add: servicesBody_def Let_def servicesPath_def)
qed (simp_all add: pullKernel_bundles extractKernel_bundles initBody_bundles addFiles_bundles)

lemma runStep_bundles_Inr:
  assumes "runStep lib env m pull st s = Inr s'"
  shows "bundlePaths (trace s') = bundlePaths (trace s) @ bundleOf st"
proof (cases st)
  case PullKernel
  with assms pullKernel_bundles [of env m pull s] show ?thesis by simp
next
  case ExtractKernel
  with assms extractKernel_bundles [of lib env m pull s] show ?thesis by simp
next
  case (InitStep ii)
  with assms initBody_bundles [of lib env m pull ii s] show ?thesis by simp
next
  case (OnbootStep x)
  with assms ociBundle_Inr [of lib env m pull "onbootPath x" "snd x" s s'] show ?thesis
    by (auto simp: onbootBody_def Let_def onbootPath_def)
next
  case (ServicesStep img)
  with assms ociBundle_Inr [of lib env m pull "servicesPath img" img s s'] show ?thesis
    by (auto simp: servicesBody_def Let_def servicesPath_def)
next
  case AddFiles
  with assms addFiles_bundles [of lib env m s] show ?thesis by simp
qed

lemma forEach_bundles:
  "\<exists>n. bundlePaths (trace (state_of (forEach (runStep lib env m pull) sts s))) =
        bundlePaths (trace s) @ take n (concat (map bundleOf sts))"
proof (induction sts arbitrary: s)
  case Nil
  then show ?case by simp
next
  case (Cons st sts)
  show ?case
  proof (cases "runStep lib env m pull st s")
    case (Inl f)
    from runStep_bundles [of lib env m pull st s] obtain n where
      n: "bundlePaths (trace (state_of (runStep lib env m pull st s))) =
          bundlePaths (trace s) @ take n (bundleOf st)" by blast
    have "take n (bundleOf st) =
          take (min n (length (bundleOf st))) (bundleOf st @ concat (map bundleOf sts))"
      by (cases "n \<le> length (bundleOf st)") (simp_all add: min_def)
    with n Inl have "bundlePaths (trace (state_of (forEach (runStep lib env m pull) (st # sts) s))) =
        bundlePaths (trace s)
        @ take (min n (length (bundleOf st))) (concat (map bundleOf (st # sts)))"
      by simp
    then show ?thesis by blast
  next
    case (Inr s1)
    from Cons.IH [of s1] obtain n where
      n: "bundlePaths (trace (state_of (forEach (runStep lib env m pull) sts s1))) =
          bundlePaths (trace s1) @ take n (concat (map bundleOf sts))" by blast
    from runStep_bundles_Inr [OF Inr] n Inr
    have "bundlePaths (trace (state_of (forEach (runStep lib env m pull) (st # sts) s))) =
        bundlePaths (trace s)
        @ take (length (bundleOf st) + n) (concat (map bundleOf (st # sts)))"
      by simp
    then show ?thesis by blast
  qed
qed

lemma bundleOf_steps: "concat (map bundleOf (steps m)) = expectedBundles m"
  by (simp add: steps_def expectedBundles_def onbootPath_def servicesPath_def comp_def
      concat_map_singleton)

text \<open>
  The pull of lines 224 to 230 does not look at the kernel image: with an empty kernel
  image, when the \<open>pull\<close> flag is set or the trust policy covers the empty reference,
  every run begins with a call of \<open>dockerPull\<close> on the empty reference.
\<close>

lemma empty_kernel_image_pulled:
  "kernel_Image (Kernel m) = '''' \<Longrightarrow> pull \<or> enforceContentTrust '''' (Trust m) \<Longrightarrow>
   \<exists>r t. trace (final_state (buildInternal lib env m pull)) =
          (PullCall '''' (enforceContentTrust '''' (Trust m)), PullResult r) # t"
proof -
  assume k: "kernel_Image (Kernel m) = ''''" and p: "pull \<or> enforceContentTrust '''' (Trust m)"
  let ?c = "PullCall '''' (enforceContentTrust '''' (Trust m))"
  from k p have "trace (state_of (pullKernel env m pull start)) =
        [(?c, PullResult (dockerPull env 0 '''' (enforceContentTrust '''' (Trust m))))]"
    by (auto simp: pullKernel_def Let_def start_def split: option.splits)
  moreover have "\<exists>t. trace (state_of (forEach (runStep lib env m pull) (steps m) start)) =
        trace (state_of (pullKernel env m pull start)) @ t"
  proof (cases "pullKernel env m pull start")
    case (Inl f)
    then show ?thesis by (simp add: steps_def)
  next
    case (Inr s1)
    from forEach_trace [of "runStep lib env m pull" "tl (steps m)" s1, OF runStep_trace]
    obtain t where "trace (state_of (forEach (runStep lib env m pull) (tl (steps m)) s1)) =
        trace s1 @ t" by blast
    with Inr show ?thesis by (simp add: steps_def)
  qed
  ultimately show ?thesis by (auto simp: final_state_trace)
qed

section \<open>Three digits\<close>

lemma decimal_digit: "n < 10 \<Longrightarrow> decimal n = [''0123456789'' ! n]"
  by (subst decimal.simps) simp

lemma decimal_step: "10 \<le> n \<Longrightarrow> decimal n = decimal (n div 10) @ [''0123456789'' ! (n mod 10)]"
  by (subst decimal.simps) simp

lemma decimal_nonempty: "decimal n \<noteq> []"
  by (subst decimal.simps) simp

lemma decimal_long: "100 \<le> n \<Longrightarrow> 3 \<le> length (decimal n)"
proof -
  assume n: "100 \<le> n"
  then have "10 \<le> n div 10" by simp
  from decimal_step [OF this] n have
    "decimal n = decimal (n div 10 div 10) @ [''0123456789'' ! (n div 10 mod 10)]
                 @ [''0123456789'' ! (n mod 10)]"
    by (simp add: decimal_step)
  with decimal_nonempty [of "n div 10 div 10"] show ?thesis
    by (cases "decimal (n div 10 div 10)") simp_all
qed

lemma Sprintf_03d_three:
  assumes "i < 1000"
  shows "Sprintf_03d i =
           [''0123456789'' ! (i div 100), ''0123456789'' ! (i div 10 mod 10),
            ''0123456789'' ! (i mod 10)]"
proof -
  have rep: "replicate 2 CHR ''0'' = ''00''" "replicate 1 CHR ''0'' = ''0''"
    by (simp_all add: numeral_2_eq_2)
  consider "i < 10" | "10 \<le> i" "i < 100" | "100 \<le> i" by linarith
  then show ?thesis
  proof cases
    case 1
    then have d: "decimal i = [''0123456789'' ! i]" by (rule decimal_digit)
    from 1 have "i div 100 = 0" "i div 10 mod 10 = 0" "i mod 10 = i" by simp_all
    then show ?thesis by (simp add: Sprintf_03d_def d rep)
  next
    case 2
    then have "i div 10 < 10" by simp
    then have "decimal (i div 10) = [''0123456789'' ! (i div 10)]" by (rule decimal_digit)
    with decimal_step [OF 2(1)]
    have d: "decimal i = [''0123456789'' ! (i div 10), ''0123456789'' ! (i mod 10)]" by simp
    from 2 have "i div 100 = 0" "i div 10 mod 10 = i div 10" by simp_all
    then show ?thesis by (simp add: Sprintf_03d_def d rep)
  next
    case 3
    with assms have a: "10 \<le> i div 10" "i div 10 div 10 < 10" by simp_all
    have h: "i div 10 div 10 = i div 100" by (simp add: div_mult2_eq)
    from a(2) have "decimal (i div 10 div 10) = [''0123456789'' ! (i div 10 div 10)]"
      by (rule decimal_digit)
    with decimal_step [OF a(1)] h
    have "decimal (i div 10) = [''0123456789'' ! (i div 100), ''0123456789'' ! (i div 10 mod 10)]"
      by simp
    moreover from 3 have "10 \<le> i" by simp
    ultimately have d: "decimal i =
        [''0123456789'' ! (i div 100), ''0123456789'' ! (i div 10 mod 10),
         ''0123456789'' ! (i mod 10)]"
      using decimal_step [of i] by simp
    show ?thesis by (simp add: Sprintf_03d_def d)
  qed
qed

lemma Sprintf_03d_long: "1000 \<le> i \<Longrightarrow> Sprintf_03d i = decimal i"
  using decimal_long [of i] by (simp add: Sprintf_03d_def)

lemma decimal_longer: "1000 \<le> n \<Longrightarrow> 3 < length (decimal n)"
proof -
  assume n: "1000 \<le> n"
  then have "100 \<le> n div 10" by simp
  from decimal_long [OF this] decimal_step [of n] n show ?thesis by simp
qed

section \<open>The run of the example\<close>

lemma demo_run:
  "buildInternal plainTar demoWorld demoMoby False =
     Inr (fst (projr demoResult), snd (projr demoResult))"
  by code_simp

lemma laterWorld_agrees:
  "agrees laterWorld (trace (final_state (buildInternal plainTar demoWorld demoMoby False)))"
  by code_simp

lemma quietWorld_onbootBody:
  "\<exists>s'. onbootBody plainTar quietWorld m pull x s = Inr s'"
  by (simp add: onbootBody_def ociBundle_def quietWorld_def plainTar_def Let_def)

lemma quietWorld_onboot:
  "\<exists>s'. forEach (onbootBody plainTar quietWorld m pull) xs s = Inr s'"
proof (induction xs arbitrary: s)
  case Nil
  show ?case by simp
next
  case (Cons x xs)
  from quietWorld_onbootBody [of m pull x s] obtain s1 where
    "onbootBody plainTar quietWorld m pull x s = Inr s1" by blast
  with Cons.IH [of s1] show ?case by simp
qed

lemma longMoby_run: "\<not> isl (buildInternal plainTar quietWorld longMoby False)"
proof -
  have p: "pullKernel quietWorld longMoby False start = Inr start"
    by (simp add: pullKernel_def longMoby_def enforceContentTrust_def)
  have k: "\<And>s. extractKernel plainTar quietWorld longMoby False s = Inr s"
    by (rule extractKernel_none) (simp add: longMoby_def)
  from quietWorld_onboot [of longMoby False "enumerate 0 (Onboot longMoby)" start]
  obtain s4 where o: "forEach (onbootBody plainTar quietWorld longMoby False)
      (enumerate 0 (Onboot longMoby)) start = Inr s4" by blast
  have i: "Init longMoby = []" "Services longMoby = []" by (simp_all add: longMoby_def)
  have f: "\<exists>s6. addFiles plainTar quietWorld longMoby s4 = Inr s6"
    by (simp add: addFiles_def quietWorld_def plainTar_def Let_def)
  then obtain s6 where f: "addFiles plainTar quietWorld longMoby s4 = Inr s6" by blast
  have c: "\<not> isl (closeArchive plainTar s6)"
    by (simp add: closeArchive_def plainTar_def)
  show ?thesis
    unfolding buildInternal_def by (simp add: p k i o f c)
qed

section \<open>Claims about the build\<close>

text \<open>
  C1. When the build of a configuration with a kernel image succeeds, the collaborators
  returned, in this order, the extracted kernel image, one extracted image for each entry
  of \<open>m.Init\<close> in list order, one bundle for each entry of \<open>m.Onboot\<close> in list order, one
  bundle for each entry of \<open>m.Services\<close> in list order, and the overlay; the kernel image
  was split into the boot archive and \<open>kernel.tar\<close>; and the entries written to the output
  are exactly the entries of the boot archive, then those of \<open>kernel.tar\<close>, then those of
  each extracted image, of each onboot bundle, of each service bundle, and of the overlay,
  each with the header and the content that was read. The archive returned is what the
  writer leaves on \<open>Close\<close> after these entries.
\<close>

theorem C1_archive_order:
  "buildInternal lib env m pull = Inr (w, s) \<and> kernel_Image (Kernel m) \<noteq> '''' \<longrightarrow>
   (\<exists>out kernel_buf ktar inits onboots services overlay.
      untarKernel lib out ''kernel'' ''bzImage'' ''kernel.tar'' (kernel_Cmdline (Kernel m)) =
        Ok (kernel_buf, ktar) \<and>
      length inits = length (Init m) \<and> length onboots = length (Onboot m) \<and>
      length services = length (Services m) \<and>
      fragments (trace s) =
        (Extracted (kernel_Image (Kernel m)), out)
        # zip (map Extracted (Init m)) inits
        @ zip (map (\<lambda>x. Bundled (onbootPath x) (image_Image (snd x))) (enumerate 0 (Onboot m)))
            onboots
        @ zip (map (\<lambda>img. Bundled (servicesPath img) (image_Image img)) (Services m)) services
        @ [(Overlay, overlay)] \<and>
      iw s =
        entries (NewReader lib kernel_buf) @ entries (NewReader lib ktar)
        @ concat (map (\<lambda>b. entries (NewReader lib b)) inits)
        @ concat (map (\<lambda>b. entries (NewReader lib b)) onboots)
        @ concat (map (\<lambda>b. entries (NewReader lib b)) services)
        @ entries (NewReader lib overlay) \<and>
      Close lib (iw s) = Inr w \<and> closed s)"
proof (intro impI, elim conjE)
  assume run: "buildInternal lib env m pull = Inr (w, s)"
    and k: "kernel_Image (Kernel m) \<noteq> ''''"
  from buildInternal_Inr [OF run] k obtain kfrag kents inits onboots services overlay
    out kernel_buf ktar where *:
    "untarKernel lib out ''kernel'' ''bzImage'' ''kernel.tar'' (kernel_Cmdline (Kernel m)) =
       Ok (kernel_buf, ktar)"
    "kfrag = [(Extracted (kernel_Image (Kernel m)), out)]"
    "kents = entries (NewReader lib kernel_buf) @ entries (NewReader lib ktar)"
    "length inits = length (Init m)" "length onboots = length (Onboot m)"
    "length services = length (Services m)"
    "fragments (trace s) =
       kfrag @ zip (map Extracted (Init m)) inits
       @ zip (map (\<lambda>x. Bundled (onbootPath x) (image_Image (snd x))) (enumerate 0 (Onboot m)))
           onboots
       @ zip (map (\<lambda>img. Bundled (servicesPath img) (image_Image img)) (Services m)) services
       @ [(Overlay, overlay)]"
    "iw s =
       kents @ concat (map (\<lambda>b. entries (NewReader lib b)) inits)
       @ concat (map (\<lambda>b. entries (NewReader lib b)) onboots)
       @ concat (map (\<lambda>b. entries (NewReader lib b)) services)
       @ entries (NewReader lib overlay)"
    "Close lib (iw s) = Inr w" "closed s"
    by (auto split: if_splits)
  show "\<exists>out kernel_buf ktar inits onboots services overlay.
      untarKernel lib out ''kernel'' ''bzImage'' ''kernel.tar'' (kernel_Cmdline (Kernel m)) =
        Ok (kernel_buf, ktar) \<and>
      length inits = length (Init m) \<and> length onboots = length (Onboot m) \<and>
      length services = length (Services m) \<and>
      fragments (trace s) =
        (Extracted (kernel_Image (Kernel m)), out)
        # zip (map Extracted (Init m)) inits
        @ zip (map (\<lambda>x. Bundled (onbootPath x) (image_Image (snd x))) (enumerate 0 (Onboot m)))
            onboots
        @ zip (map (\<lambda>img. Bundled (servicesPath img) (image_Image img)) (Services m)) services
        @ [(Overlay, overlay)] \<and>
      iw s =
        entries (NewReader lib kernel_buf) @ entries (NewReader lib ktar)
        @ concat (map (\<lambda>b. entries (NewReader lib b)) inits)
        @ concat (map (\<lambda>b. entries (NewReader lib b)) onboots)
        @ concat (map (\<lambda>b. entries (NewReader lib b)) services)
        @ entries (NewReader lib overlay) \<and>
      Close lib (iw s) = Inr w \<and> closed s"
    apply (rule exI [of _ out], rule exI [of _ kernel_buf], rule exI [of _ ktar])
    apply (rule exI [of _ inits], rule exI [of _ onboots], rule exI [of _ services])
    apply (rule exI [of _ overlay])
    using * by simp
qed

text \<open>
  C1 on a configuration with a kernel, two init images, three onboot containers, one
  service and an overlay.
\<close>

theorem C1_witness:
  "buildInternal plainTar demoWorld demoMoby False =
     Inr (fst (projr demoResult), snd (projr demoResult)) \<and>
   kernel_Image (Kernel demoMoby) \<noteq> '''' \<and>
   map fst (fragments (trace (snd (projr demoResult)))) =
     [Extracted ''linuxkit/kernel:4.9.x'', Extracted ''init'', Extracted ''runc'',
      Bundled ''containers/onboot/000-sysctl'' ''linuxkit/sysctl'',
      Bundled ''containers/onboot/001-dhcp'' ''linuxkit/dhcpcd'',
      Bundled ''containers/onboot/002-fmt'' ''linuxkit/format'',
      Bundled ''containers/services/sshd'' ''linuxkit/sshd'', Overlay] \<and>
   map (Name \<circ> fst) (iw (snd (projr demoResult))) =
     [''boot'', ''boot/kernel'', ''boot/cmdline'', ''lib/modules'', ''bin/init'', ''bin/runc'',
      ''containers/onboot/000-sysctl/config.json'', ''containers/onboot/001-dhcp/config.json'',
      ''containers/onboot/002-fmt/config.json'', ''containers/services/sshd/config.json'',
      ''etc/hostname''] \<and>
   (\<exists>out kernel_buf ktar inits onboots services overlay.
      untarKernel plainTar out ''kernel'' ''bzImage'' ''kernel.tar''
        (kernel_Cmdline (Kernel demoMoby)) = Ok (kernel_buf, ktar) \<and>
      length inits = length (Init demoMoby) \<and> length onboots = length (Onboot demoMoby) \<and>
      length services = length (Services demoMoby) \<and>
      fragments (trace (snd (projr demoResult))) =
        (Extracted (kernel_Image (Kernel demoMoby)), out)
        # zip (map Extracted (Init demoMoby)) inits
        @ zip (map (\<lambda>x. Bundled (onbootPath x) (image_Image (snd x)))
                 (enumerate 0 (Onboot demoMoby))) onboots
        @ zip (map (\<lambda>img. Bundled (servicesPath img) (image_Image img)) (Services demoMoby))
            services
        @ [(Overlay, overlay)] \<and>
      iw (snd (projr demoResult)) =
        entries (NewReader plainTar kernel_buf) @ entries (NewReader plainTar ktar)
        @ concat (map (\<lambda>b. entries (NewReader plainTar b)) inits)
        @ concat (map (\<lambda>b. entries (NewReader plainTar b)) onboots)
        @ concat (map (\<lambda>b. entries (NewReader plainTar b)) services)
        @ entries (NewReader plainTar overlay) \<and>
      Close plainTar (iw (snd (projr demoResult))) = Inr (fst (projr demoResult)) \<and>
      closed (snd (projr demoResult)))"
proof -
  have k: "kernel_Image (Kernel demoMoby) \<noteq> ''''" by (simp add: demoMoby_def)
  have f: "map fst (fragments (trace (snd (projr demoResult)))) =
     [Extracted ''linuxkit/kernel:4.9.x'', Extracted ''init'', Extracted ''runc'',
      Bundled ''containers/onboot/000-sysctl'' ''linuxkit/sysctl'',
      Bundled ''containers/onboot/001-dhcp'' ''linuxkit/dhcpcd'',
      Bundled ''containers/onboot/002-fmt'' ''linuxkit/format'',
      Bundled ''containers/services/sshd'' ''linuxkit/sshd'', Overlay]"
    by code_simp
  have n: "map (Name \<circ> fst) (iw (snd (projr demoResult))) =
     [''boot'', ''boot/kernel'', ''boot/cmdline'', ''lib/modules'', ''bin/init'', ''bin/runc'',
      ''containers/onboot/000-sysctl/config.json'', ''containers/onboot/001-dhcp/config.json'',
      ''containers/onboot/002-fmt/config.json'', ''containers/services/sshd/config.json'',
      ''etc/hostname'']"
    by code_simp
  from C1_archive_order [of plainTar demoWorld demoMoby False "fst (projr demoResult)"
      "snd (projr demoResult)"] demo_run k f n
  show ?thesis by blast
qed

text \<open>
  C6, as the code has it. In every run the calls of \<open>ImageBundle\<close> are, in order, an initial
  part of: for each entry of \<open>m.Onboot\<close> at position \<open>i\<close>, counted from 0, the path
  \<open>containers/onboot/\<close>, \<open>Sprintf("%03d", i)\<close>, a hyphen and the name of the entry; then for
  each entry of \<open>m.Services\<close> the path \<open>containers/services/\<close> and the name of the entry. A
  successful run makes all of them. The index of the first entry is \<open>000\<close>; an index below
  1000 is written with exactly three digits, zeros in front; an index from 1000 on is
  written with all its digits, which are more than three.
\<close>

theorem C6_bundle_paths:
  "(\<exists>n. bundlePaths (trace (final_state (buildInternal lib env m pull))) =
         take n (expectedBundles m)) \<and>
   (buildInternal lib env m pull = Inr (w, s) \<longrightarrow> bundlePaths (trace s) = expectedBundles m) \<and>
   expectedBundles m =
     map (\<lambda>x. (''containers/onboot/'' @ Sprintf_03d (fst x) @ ''-'' @ image_Name (snd x),
               image_Image (snd x))) (enumerate 0 (Onboot m))
     @ map (\<lambda>img. (''containers/services/'' @ image_Name img, image_Image img)) (Services m) \<and>
   Sprintf_03d 0 = ''000'' \<and>
   (i < 1000 \<longrightarrow>
      Sprintf_03d i =
        [''0123456789'' ! (i div 100), ''0123456789'' ! (i div 10 mod 10),
         ''0123456789'' ! (i mod 10)]) \<and>
   (1000 \<le> j \<longrightarrow> Sprintf_03d j = decimal j \<and> 3 < length (Sprintf_03d j))"
proof (intro conjI impI)
  from forEach_bundles [of lib env m pull "steps m" start]
  show "\<exists>n. bundlePaths (trace (final_state (buildInternal lib env m pull))) =
         take n (expectedBundles m)"
    by (simp add: final_state_trace bundleOf_steps start_def)
next
  assume "buildInternal lib env m pull = Inr (w, s)"
  from buildInternal_Inr [OF this] show "bundlePaths (trace s) = expectedBundles m"
    by (auto simp: expectedBundles_def onbootPath_def servicesPath_def)
next
  show "expectedBundles m =
     map (\<lambda>x. (''containers/onboot/'' @ Sprintf_03d (fst x) @ ''-'' @ image_Name (snd x),
               image_Image (snd x))) (enumerate 0 (Onboot m))
     @ map (\<lambda>img. (''containers/services/'' @ image_Name img, image_Image img)) (Services m)"
    by (simp add: expectedBundles_def)
next
  show "Sprintf_03d 0 = ''000''" using Sprintf_03d_three [of 0] by simp
next
  assume "i < 1000"
  then show "Sprintf_03d i =
        [''0123456789'' ! (i div 100), ''0123456789'' ! (i div 10 mod 10),
         ''0123456789'' ! (i mod 10)]"
    by (rule Sprintf_03d_three)
next
  assume j: "1000 \<le> j"
  then show "Sprintf_03d j = decimal j" by (rule Sprintf_03d_long)
  with decimal_longer [OF j] show "3 < length (Sprintf_03d j)" by simp
qed

text \<open>C6 on the run of the example, on the index 12 and on the index 1000.\<close>

theorem C6_witness:
  "buildInternal plainTar demoWorld demoMoby False =
     Inr (fst (projr demoResult), snd (projr demoResult)) \<and>
   bundlePaths (trace (snd (projr demoResult))) =
     [(''containers/onboot/000-sysctl'', ''linuxkit/sysctl''),
      (''containers/onboot/001-dhcp'', ''linuxkit/dhcpcd''),
      (''containers/onboot/002-fmt'', ''linuxkit/format''),
      (''containers/services/sshd'', ''linuxkit/sshd'')] \<and>
   (12::nat) < 1000 \<and> Sprintf_03d 12 = ''012'' \<and>
   (1000::nat) \<le> 1000 \<and> Sprintf_03d 1000 = decimal 1000 \<and> 3 < length (Sprintf_03d 1000)"
proof -
  have e: "expectedBundles demoMoby =
     [(''containers/onboot/000-sysctl'', ''linuxkit/sysctl''),
      (''containers/onboot/001-dhcp'', ''linuxkit/dhcpcd''),
      (''containers/onboot/002-fmt'', ''linuxkit/format''),
      (''containers/services/sshd'', ''linuxkit/sshd'')]"
    by code_simp
  have t: "(12::nat) < 1000" "(1000::nat) \<le> 1000" by simp_all
  have d: "[''0123456789'' ! ((12::nat) div 100), ''0123456789'' ! ((12::nat) div 10 mod 10),
            ''0123456789'' ! ((12::nat) mod 10)] = ''012''"
    by simp
  from C6_bundle_paths [of plainTar demoWorld demoMoby False "fst (projr demoResult)"
      "snd (projr demoResult)" 12 1000]
  have p: "buildInternal plainTar demoWorld demoMoby False =
             Inr (fst (projr demoResult), snd (projr demoResult)) \<longrightarrow>
           bundlePaths (trace (snd (projr demoResult))) = expectedBundles demoMoby"
    and q: "(12::nat) < 1000 \<longrightarrow>
      Sprintf_03d 12 =
        [''0123456789'' ! ((12::nat) div 100), ''0123456789'' ! ((12::nat) div 10 mod 10),
         ''0123456789'' ! ((12::nat) mod 10)]"
    and r: "(1000::nat) \<le> 1000 \<longrightarrow>
      Sprintf_03d 1000 = decimal 1000 \<and> 3 < length (Sprintf_03d 1000)"
    by blast+
  from p demo_run e have b: "bundlePaths (trace (snd (projr demoResult))) =
     [(''containers/onboot/000-sysctl'', ''linuxkit/sysctl''),
      (''containers/onboot/001-dhcp'', ''linuxkit/dhcpcd''),
      (''containers/onboot/002-fmt'', ''linuxkit/format''),
      (''containers/services/sshd'', ''linuxkit/sshd'')]"
    by (simp only:)
  from q t(1) d have q': "Sprintf_03d 12 = ''012''" by (simp only:)
  from r t(2) have r': "Sprintf_03d 1000 = decimal 1000" "3 < length (Sprintf_03d 1000)"
    by blast+
  from demo_run b t q' r' show ?thesis by (intro conjI)
qed

text \<open>
  C6, as the claim states it, fails from the index 1000 on, where the index has four
  digits: the build of a configuration with 1001 onboot containers succeeds, and the last
  of them is bundled at \<open>containers/onboot/1000-getty\<close>.
\<close>

theorem C6_counterexample:
  "\<not> isl (buildInternal plainTar quietWorld longMoby False) \<and>
   length (Onboot longMoby) = 1001 \<and>
   bundlePaths (trace (final_state (buildInternal plainTar quietWorld longMoby False))) ! 1000 =
     (''containers/onboot/1000-getty'', ''linuxkit/getty'') \<and>
   Sprintf_03d 1000 = ''1000''"
proof -
  have d: "Sprintf_03d 1000 = ''1000''" by code_simp
  obtain w s where r: "buildInternal plainTar quietWorld longMoby False = Inr (w, s)"
    using longMoby_run by (cases "buildInternal plainTar quietWorld longMoby False") auto
  from buildInternal_Inr [OF r] have
    "bundlePaths (trace s) =
       map (\<lambda>x. (onbootPath x, image_Image (snd x))) (enumerate 0 (Onboot longMoby))
       @ map (\<lambda>img. (servicesPath img, image_Image img)) (Services longMoby)"
    by blast
  then have "bundlePaths (trace s) ! 1000 =
     (''containers/onboot/1000-getty'', ''linuxkit/getty'')"
    by (simp add: longMoby_def nth_append nth_enumerate_eq onbootPath_def d)
  with r longMoby_run d show ?thesis by (simp add: final_state_def longMoby_def)
qed

text \<open>
  C7. The result of a build is decided by the configuration, the \<open>pull\<close> flag, the tar
  library and the answers of the collaborators to the calls the build makes: a world that
  gives, to each call of a run, the answer that was given in that run, gives the same
  result, the same archive or the same fatal error, with the same calls.
\<close>

theorem C7_deterministic:
  "agrees env2 (trace (final_state (buildInternal lib env1 m pull))) \<Longrightarrow>
   buildInternal lib env2 m pull = buildInternal lib env1 m pull"
proof -
  assume "agrees env2 (trace (final_state (buildInternal lib env1 m pull)))"
  then have a: "agrees env2 (trace (state_of (forEach (runStep lib env1 m pull) (steps m) start)))"
    by (simp add: final_state_trace)
  have "forEach (runStep lib env2 m pull) (steps m) start =
        forEach (runStep lib env1 m pull) (steps m) start"
  proof (rule forEach_replay [where ?body1.0 = "runStep lib env1 m pull"
          and ?body2.0 = "runStep lib env2 m pull" and ?env2.0 = env2])
    show "\<And>x s. \<exists>t. trace (state_of (runStep lib env1 m pull x s)) = trace s @ t"
      by (rule runStep_trace)
    show "\<And>x s. agrees env2 (trace (state_of (runStep lib env1 m pull x s))) \<Longrightarrow>
            runStep lib env2 m pull x s = runStep lib env1 m pull x s"
      by (rule runStep_replay)
    show "agrees env2 (trace (state_of (forEach (runStep lib env1 m pull) (steps m) start)))"
      by (rule a)
  qed
  then show ?thesis by (simp add: buildInternal_steps)
qed

text \<open>
  C7 on the example and on a world that answers the calls of the example's run as before
  and fails on every other call.
\<close>

theorem C7_witness:
  "agrees laterWorld (trace (final_state (buildInternal plainTar demoWorld demoMoby False))) \<and>
   buildInternal plainTar laterWorld demoMoby False =
   buildInternal plainTar demoWorld demoMoby False"
  using C7_deterministic [OF laterWorld_agrees] laterWorld_agrees by simp

text \<open>
  C8. When a step of the build ends the process, after the steps before it went through,
  the build ends there, with that error and in that state: nothing of a later step is
  done. When the steps go through and \<open>Close\<close> fails, the build ends with the close error.
  A build that ends in an error has not closed the output, and every answer but the last
  one of its run was a success; a build that returns has closed the output, and every
  answer of its run was a success.
\<close>

theorem C8_first_error_is_fatal:
  "(steps m = before @ st # later \<and>
    forEach (runStep lib env m pull) before start = Inr s \<and>
    runStep lib env m pull st s = Inl f \<longrightarrow>
      buildInternal lib env m pull = Inl f) \<and>
   (forEach (runStep lib env m pull) (steps m) start = Inr s \<and> Close lib (iw s) = Inl err \<longrightarrow>
      buildInternal lib env m pull = Inl (''initrd close error: '' @ err, s)) \<and>
   (buildInternal lib env m pull = Inl f \<longrightarrow>
      \<not> closed (snd f) \<and> allOk (butlast (trace (snd f)))) \<and>
   (buildInternal lib env m pull = Inr (w, s) \<longrightarrow> closed s \<and> allOk (trace s))"
proof (intro conjI impI)
  assume "steps m = before @ st # later \<and>
    forEach (runStep lib env m pull) before start = Inr s \<and>
    runStep lib env m pull st s = Inl f"
  then show "buildInternal lib env m pull = Inl f"
    by (simp add: buildInternal_steps forEach_append)
next
  assume "forEach (runStep lib env m pull) (steps m) start = Inr s \<and> Close lib (iw s) = Inl err"
  then show "buildInternal lib env m pull = Inl (''initrd close error: '' @ err, s)"
    by (simp add: buildInternal_steps closeArchive_def)
next
  assume "buildInternal lib env m pull = Inl f"
  then show "\<not> closed (snd f)" "allOk (butlast (trace (snd f)))"
    using buildInternal_Inl_sound by blast+
next
  assume "buildInternal lib env m pull = Inr (w, s)"
  from buildInternal_Inr [OF this] show "closed s" "allOk (trace s)" by blast+
qed

text \<open>
  C8 on a configuration whose second onboot container cannot be bundled: the output holds
  the entries up to the first onboot container and is not closed, and no bundle is asked
  for the third onboot container nor for the service.
\<close>

theorem C8_witness:
  "steps brokenMoby =
     brokenBefore @ OnbootStep (1, \<lparr>image_Name = ''dhcp'', image_Image = ''broken''\<rparr>)
     # [OnbootStep (2, \<lparr>image_Name = ''fmt'', image_Image = ''linuxkit/format''\<rparr>),
        ServicesStep \<lparr>image_Name = ''sshd'', image_Image = ''linuxkit/sshd''\<rparr>, AddFiles] \<and>
   forEach (runStep plainTar demoWorld brokenMoby False) brokenBefore start = Inr brokenState \<and>
   runStep plainTar demoWorld brokenMoby False
     (OnbootStep (1, \<lparr>image_Name = ''dhcp'', image_Image = ''broken''\<rparr>)) brokenState =
     Inl brokenFailure \<and>
   buildInternal plainTar demoWorld brokenMoby False = Inl brokenFailure \<and>
   \<not> closed (snd brokenFailure) \<and>
   map (Name \<circ> fst) (iw (snd brokenFailure)) =
     [''boot'', ''boot/kernel'', ''boot/cmdline'', ''lib/modules'', ''bin/init'', ''bin/runc'',
      ''containers/onboot/000-sysctl/config.json''] \<and>
   bundlePaths (trace (snd brokenFailure)) =
     [(''containers/onboot/000-sysctl'', ''linuxkit/sysctl''),
      (''containers/onboot/001-dhcp'', ''broken'')]"
proof -
  have h1: "steps brokenMoby =
     brokenBefore @ OnbootStep (1, \<lparr>image_Name = ''dhcp'', image_Image = ''broken''\<rparr>)
     # [OnbootStep (2, \<lparr>image_Name = ''fmt'', image_Image = ''linuxkit/format''\<rparr>),
        ServicesStep \<lparr>image_Name = ''sshd'', image_Image = ''linuxkit/sshd''\<rparr>, AddFiles]"
    by code_simp
  have h2: "forEach (runStep plainTar demoWorld brokenMoby False) brokenBefore start =
            Inr brokenState"
    by code_simp
  have h3: "runStep plainTar demoWorld brokenMoby False
     (OnbootStep (1, \<lparr>image_Name = ''dhcp'', image_Image = ''broken''\<rparr>)) brokenState =
     Inl brokenFailure"
    by code_simp
  have n: "map (Name \<circ> fst) (iw (snd brokenFailure)) =
     [''boot'', ''boot/kernel'', ''boot/cmdline'', ''lib/modules'', ''bin/init'', ''bin/runc'',
      ''containers/onboot/000-sysctl/config.json'']"
    by code_simp
  have b: "bundlePaths (trace (snd brokenFailure)) =
     [(''containers/onboot/000-sysctl'', ''linuxkit/sysctl''),
      (''containers/onboot/001-dhcp'', ''broken'')]"
    by code_simp
  from C8_first_error_is_fatal [of brokenMoby brokenBefore
      "OnbootStep (1, \<lparr>image_Name = ''dhcp'', image_Image = ''broken''\<rparr>)"
      "[OnbootStep (2, \<lparr>image_Name = ''fmt'', image_Image = ''linuxkit/format''\<rparr>),
        ServicesStep \<lparr>image_Name = ''sshd'', image_Image = ''linuxkit/sshd''\<rparr>, AddFiles]"
      plainTar demoWorld False brokenState brokenFailure]
    h1 h2 h3 n b
  show ?thesis by blast
qed

text \<open>
  C9 fails. The kernel image is pulled before the test that the kernel image is not
  empty: with an empty kernel image, \<open>dockerPull\<close> is called with the empty reference when
  the \<open>pull\<close> flag is set, and also, without the flag, when \<open>library\<close> is an organisation of
  the trust policy; in a world where the empty reference cannot be pulled, the build ends
  there.
\<close>

theorem C9_pull_without_kernel_image:
  "kernel_Image (Kernel noKernelMoby) = '''' \<and>
   buildInternal plainTar demoWorld noKernelMoby True =
     Inl (''Could not pull image : invalid reference format'',
          \<lparr>iw = [], closed = False,
           trace = [(PullCall '''' False, PullResult (Some ''invalid reference format''))]\<rparr>) \<and>
   kernel_Image (Kernel libraryMoby) = '''' \<and>
   buildInternal plainTar demoWorld libraryMoby False =
     Inl (''Could not pull image : invalid reference format'',
          \<lparr>iw = [], closed = False,
           trace = [(PullCall '''' True, PullResult (Some ''invalid reference format''))]\<rparr>)"
  by code_simp

end
